theory Spec2Isabelle
  imports Main "HOL-Library.FSet"
begin

section \<open>Selection store (TableListView)\<close>

text \<open>
  The table list view receives the array \<open>tables\<close> and the JavaScript \<open>Set\<close>
  \<open>selectedTables\<close> as props. A \<open>Set\<close> of identifiers is a finite set without
  duplicates, modelled as an \<open>fset\<close>; its \<open>size\<close> is \<open>fcard\<close>. Each handler calls
  \<open>setSelectedTables\<close> exactly once: the model returns the value handed to that setter.
\<close>

record table =
  table_id :: string
  table_name :: string
  table_rowCount :: nat
  table_updatedAt :: "string option"


definition handleSelectAll :: "table list \<Rightarrow> string fset \<Rightarrow> string fset" where
  "handleSelectAll tables selectedTables =
     (if fcard selectedTables = length tables then {||}
      else fset_of_list (map table_id tables))"

text \<open>The list of all table identifiers, \<open>tables.map(table => table.id)\<close>.\<close>

definition allIds :: "table list \<Rightarrow> string list" where
  "allIds tables = map table_id tables"

definition mk_table :: "string \<Rightarrow> table" where
  "mk_table i = \<lparr>table_id = i, table_name = i, table_rowCount = 0, table_updatedAt = None\<rparr>"




section \<open>JavaScript values\<close>

text \<open>
  The values that reach the attribute filter are parsed JSON, plus \<open>undefined\<close>, which
  the filter tests for. Numbers are opaque to the filter (they are only compared with the
  empty string, null and undefined, which no number equals), so their representation is
  a type parameter. An object is the list of its own enumerable properties in the order
  \<open>Object.entries\<close> enumerates them; a JavaScript object has no two properties with the
  same key, which is the predicate \<open>wf_json\<close> below.
\<close>

datatype 'n jsval =
    JUndefined
  | JNull
  | JBool bool
  | JNum 'n
  | JStr string
  | JArr "'n jsval list"
  | JObj "(string \<times> 'n jsval) list"

text \<open>
  What ends a computation early: a TypeError thrown by JavaScript, a request whose promise
  is rejected, and, in the model with a store of objects only, an address outside the
  store.
\<close>

datatype js_error = TypeError | RequestFailed | DanglingReference

fun typeof :: "'n jsval \<Rightarrow> string" where
  "typeof JUndefined = ''undefined''"
| "typeof JNull = ''object''"
| "typeof (JBool b) = ''boolean''"
| "typeof (JNum n) = ''number''"
| "typeof (JStr s) = ''string''"
| "typeof (JArr xs) = ''object''"
| "typeof (JObj kvs) = ''object''"


subsection \<open>Array indices as property keys\<close>

text \<open>\<open>String(i)\<close> for an array index \<open>i\<close>: its decimal digits, without leading zeros.\<close>

definition digit_char :: "nat \<Rightarrow> char" where
  "digit_char d = ''0123456789'' ! d"

fun decimal :: "nat \<Rightarrow> string" where
  "decimal n =
     (if 10 \<le> n then decimal (n div 10) @ [digit_char (n mod 10)]
      else [digit_char n])"

declare decimal.simps [simp del]

definition index_entries :: "'a list \<Rightarrow> (string \<times> 'a) list" where
  "index_entries xs = zip (map decimal [0..<length xs]) xs"

subsection \<open>\<open>Object.entries\<close> and \<open>Object.fromEntries\<close>\<close>

text \<open>
  The own enumerable string-keyed properties of a value that is neither null nor
  undefined: an object's properties, an array's elements under their indices, a string's
  characters under their indices, nothing for a number or a boolean.
\<close>

fun own_entries :: "'n jsval \<Rightarrow> (string \<times> 'n jsval) list" where
  "own_entries (JObj kvs) = kvs"
| "own_entries (JArr xs) = index_entries xs"
| "own_entries (JStr s) = index_entries (map (\<lambda>c. JStr [c]) s)"
| "own_entries v = []"

text \<open>\<open>Object.entries(v)\<close> throws a TypeError on null and undefined.\<close>

definition Object_entries :: "'n jsval \<Rightarrow> js_error + (string \<times> 'n jsval) list" where
  "Object_entries v =
     (if v = JUndefined \<or> v = JNull then Inl TypeError else Inr (own_entries v))"

text \<open>
  \<open>Object.fromEntries\<close> defines the properties one after the other on a fresh object: a
  key seen again keeps its place and takes the later value. JavaScript enumerates the
  keys that are array indices first and in ascending order, then the other keys in the
  order of their definition; the filter only ever rebuilds an object from a sublist of
  an enumeration, where the indices are in that place already.
\<close>

fun set_property :: "(string \<times> 'a) list \<Rightarrow> string \<Rightarrow> 'a \<Rightarrow> (string \<times> 'a) list" where
  "set_property [] k v = [(k, v)]"
| "set_property ((k', v') # kvs) k v =
     (if k' = k then (k, v) # kvs else (k', v') # set_property kvs k v)"

definition define_all :: "(string \<times> 'a) list \<Rightarrow> (string \<times> 'a) list \<Rightarrow> (string \<times> 'a) list" where
  "define_all obj es = foldl (\<lambda>obj (k, v). set_property obj k v) obj es"

definition Object_fromEntries :: "(string \<times> 'n jsval) list \<Rightarrow> 'n jsval" where
  "Object_fromEntries es = JObj (define_all [] es)"

section \<open>Attribute filter (TableCard.filterData)\<close>

text \<open>\<open>selectedAttributes.includes(key)\<close> on an array of strings.\<close>

definition array_includes :: "string list \<Rightarrow> string \<Rightarrow> bool" where
  "array_includes selectedAttributes key = (key \<in> set selectedAttributes)"

text \<open>
  The callback of \<open>.map\<close>: under the key \<open>values\<close>, a value of type object that is not
  null is rebuilt from its entries other than the empty string. The guard excludes null
  and undefined, so \<open>Object.entries(value)\<close> cannot throw there and is \<open>own_entries\<close>.
\<close>

fun cleanValues :: "string \<times> 'n jsval \<Rightarrow> string \<times> 'n jsval" where
  "cleanValues (key, value) =
     (if key = ''values'' \<and> typeof value = ''object'' \<and> value \<noteq> JNull
      then (key, Object_fromEntries (filter (\<lambda>(_, val). val \<noteq> JStr '''') (own_entries value)))
      else (key, value))"

text \<open>The callback of the last \<open>.filter\<close>.\<close>

fun keepValue :: "string \<times> 'n jsval \<Rightarrow> bool" where
  "keepValue (_, value) = (value \<noteq> JNull \<and> value \<noteq> JStr '''' \<and> value \<noteq> JUndefined)"

text \<open>The body of the callback of \<open>data.map\<close> (the two \<open>console.log\<close> calls apart).\<close>

definition filterItem :: "string list \<Rightarrow> 'n jsval \<Rightarrow> js_error + 'n jsval" where
  "filterItem selectedAttributes item =
     (case Object_entries item of
        Inl e \<Rightarrow> Inl e
      | Inr es \<Rightarrow>
          Inr (Object_fromEntries
                (filter keepValue
                  (map cleanValues
                    (filter (\<lambda>(key, _). array_includes selectedAttributes key) es)))))"

text \<open>\<open>Array.prototype.map\<close> with a callback that may throw: the first exception ends it.\<close>

fun map_result :: "('a \<Rightarrow> js_error + 'b) \<Rightarrow> 'a list \<Rightarrow> js_error + 'b list" where
  "map_result f [] = Inr []"
| "map_result f (x # xs) =
     (case f x of
        Inl e \<Rightarrow> Inl e
      | Inr y \<Rightarrow> (case map_result f xs of Inl e \<Rightarrow> Inl e | Inr ys \<Rightarrow> Inr (y # ys)))"

text \<open>
  \<open>filterData(data, selectedAttributes)\<close>. Only an array has the method \<open>map\<close> among the
  values modelled here: \<open>data.map\<close> on anything else is a TypeError.
\<close>

fun filterData :: "'n jsval \<Rightarrow> string list \<Rightarrow> js_error + 'n jsval" where
  "filterData (JArr data) selectedAttributes =
     (case map_result (filterItem selectedAttributes) data of
        Inl e \<Rightarrow> Inl e
      | Inr items \<Rightarrow> Inr (JArr items))"
| "filterData v selectedAttributes = Inl TypeError"

subsection \<open>The filter as the specification words it\<close>





section \<open>Table data fetcher (TableCard)\<close>

subsection \<open>Props, state and effects of one card\<close>

record card_props =
  table :: table
  apiToken :: string
  docId :: string
  selectedColumnAttributes :: "string list"
  selectedRowAttributes :: "string list"

text \<open>
  The state of one \<open>TableCard\<close>, one field for each \<open>useState\<close>. The stored columns and
  rows start as the empty array and are afterwards what \<open>filterData\<close> returned.
\<close>

record 'n table_data =
  columns :: "'n jsval"
  rows :: "'n jsval"

record 'n card_state =
  rowCount :: string
  tableData :: "'n table_data"
  isExpanded :: bool
  isLoading :: bool
  error :: string

definition initial_state :: "'n card_state" where
  "initial_state =
     \<lparr>rowCount = ''1'', tableData = \<lparr>columns = JArr [], rows = JArr []\<rparr>,
      isExpanded = False, isLoading = False, error = ''''\<rparr>"

text \<open>
  The \<open>limit\<close> entry of the request parameters: \<open>undefined\<close>, or the number that
  \<open>parseInt\<close> returned, which may be NaN.
\<close>

datatype js_limit = LimitUndefined | LimitNumber int | LimitNaN

record request_params =
  limit :: js_limit
  valueFormat :: string

text \<open>
  The arguments of \<open>axios.get\<close>: the address, the \<open>Authorization\<close> header and the
  \<open>params\<close> object, which the column request does not have.
\<close>

record request =
  url :: string
  authorization :: string
  params :: "request_params option"

text \<open>
  What a card does to the outside: a GET request handed to axios, and a call of the
  parent's callback \<open>onTableDataChange(table.id, {columns, rows})\<close>, which is taken to
  return normally. Console output is left out.
\<close>

datatype 'n event =
    HttpGet request
  | TableDataChange string "'n jsval" "'n jsval"

text \<open>
  The promise of \<open>axios.get\<close> is rejected (network error, status outside 2xx) or resolved
  with a response whose \<open>data\<close> is the parsed body.
\<close>

datatype 'n response = Rejected | Resolved "'n jsval"

subsection \<open>\<open>parseInt(string, 10)\<close>\<close>

definition is_space :: "char \<Rightarrow> bool" where
  "is_space c = (c \<in> set [CHR '' '', CHR 0x09, CHR 0x0A, CHR 0x0B, CHR 0x0C, CHR 0x0D])"

definition is_digit :: "char \<Rightarrow> bool" where
  "is_digit c = (c \<in> set ''0123456789'')"

definition digit_value :: "char \<Rightarrow> nat" where
  "digit_value c = of_char c - 48"

text \<open>
  Leading white space is skipped, one sign is read, then the longest run of decimal
  digits; without a digit the result is NaN (\<open>None\<close>). Radix 10 is given, so no \<open>0x\<close>
  prefix is looked for.
\<close>

definition parseInt :: "string \<Rightarrow> int option" where
  "parseInt s =
     (let t = dropWhile is_space s;
          negative = (t \<noteq> [] \<and> hd t = CHR ''-'');
          u = (if t \<noteq> [] \<and> (hd t = CHR ''-'' \<or> hd t = CHR ''+'') then tl t else t);
          ds = takeWhile is_digit u
      in if ds = [] then None
         else Some ((if negative then - 1 else 1)
                    * int (foldl (\<lambda>a c. 10 * a + digit_value c) 0 ds)))"

subsection \<open>Reading \<open>response.data.items\<close>\<close>

text \<open>
  Reading a property of null or undefined is a TypeError; an object yields the property
  or undefined; the arrays, strings, numbers and booleans have no property \<open>items\<close>.
\<close>

fun data_items :: "'n jsval \<Rightarrow> js_error + 'n jsval" where
  "data_items JUndefined = Inl TypeError"
| "data_items JNull = Inl TypeError"
| "data_items (JObj kvs) = Inr (case map_of kvs ''items'' of None \<Rightarrow> JUndefined | Some v \<Rightarrow> v)"
| "data_items v = Inr JUndefined"

text \<open>The body of \<open>try\<close> after the \<open>await\<close>, up to and including \<open>filterData\<close>.\<close>

definition received :: "'n response \<Rightarrow> string list \<Rightarrow> js_error + 'n jsval" where
  "received resp selectedAttributes =
     (case resp of
        Rejected \<Rightarrow> Inl RequestFailed
      | Resolved data \<Rightarrow>
          (case data_items data of
             Inl e \<Rightarrow> Inl e
           | Inr items \<Rightarrow> filterData items selectedAttributes))"

subsection \<open>\<open>fetchColumns\<close>\<close>

definition columns_request :: "card_props \<Rightarrow> request" where
  "columns_request props =
     \<lparr>url = ''https://coda.io/apis/v1/docs/'' @ docId props @ ''/tables/''
              @ table_id (table props) @ ''/columns'',
      authorization = ''Bearer '' @ apiToken props,
      params = None\<rparr>"

text \<open>
  An effect runs in two parts. The first runs when the effect fires, up to the \<open>await\<close>: it
  sets the loading flag, clears the error and issues the request. The second runs when
  the promise settles, on the state the card has then, which other updates may have
  changed in between. Values read from the closure (\<open>tableData.rows\<close>, \<open>rowCount\<close>) are those
  of the render that fired the effect: the argument \<open>closure\<close>. The setters with a function
  argument (\<open>setTableData(prev => ...)\<close>) act on the current state \<open>s\<close>.
\<close>

definition fetchColumns_start ::
  "card_props \<Rightarrow> 'n card_state \<Rightarrow> 'n card_state \<times> 'n event list" where
  "fetchColumns_start props s =
     (s\<lparr>isLoading := True, error := ''''\<rparr>, [HttpGet (columns_request props)])"

definition fetchColumns_settle ::
  "card_props \<Rightarrow> 'n card_state \<Rightarrow> 'n response \<Rightarrow> 'n card_state
     \<Rightarrow> 'n card_state \<times> 'n event list" where
  "fetchColumns_settle props closure resp s =
     (case received resp (selectedColumnAttributes props) of
        Inr filteredColumns \<Rightarrow>
          (s\<lparr>tableData := (tableData s)\<lparr>columns := filteredColumns\<rparr>, isLoading := False\<rparr>,
           [TableDataChange (table_id (table props)) filteredColumns (rows (tableData closure))])
      | Inl err \<Rightarrow>
          (s\<lparr>error := ''Failed to fetch columns. Please check your inputs and try again.'',
             isLoading := False\<rparr>,
           []))"

subsection \<open>\<open>fetchRows\<close>\<close>

definition rows_request :: "card_props \<Rightarrow> string \<Rightarrow> request" where
  "rows_request props count =
     \<lparr>url = ''https://coda.io/apis/v1/docs/'' @ docId props @ ''/tables/''
              @ table_id (table props) @ ''/rows'',
      authorization = ''Bearer '' @ apiToken props,
      params = Some
        \<lparr>limit = (if count = ''All'' then LimitUndefined
                  else (case parseInt count of None \<Rightarrow> LimitNaN | Some n \<Rightarrow> LimitNumber n)),
         valueFormat = ''simpleWithArrays''\<rparr>\<rparr>"

text \<open>
  With \<open>rowCount === '0'\<close> the function returns before any request: the rows are set to
  the empty array, the parent is told, and \<open>finally\<close> clears the loading flag.
\<close>

definition fetchRows_start ::
  "card_props \<Rightarrow> 'n card_state \<Rightarrow> 'n card_state \<Rightarrow> 'n card_state \<times> 'n event list" where
  "fetchRows_start props closure s =
     (if rowCount closure = ''0'' then
        (s\<lparr>isLoading := True, error := '''',
           tableData := (tableData s)\<lparr>rows := JArr []\<rparr>, isLoading := False\<rparr>,
         [TableDataChange (table_id (table props)) (columns (tableData closure)) (JArr [])])
      else
        (s\<lparr>isLoading := True, error := ''''\<rparr>,
         [HttpGet (rows_request props (rowCount closure))]))"

definition fetchRows_settle ::
  "card_props \<Rightarrow> 'n card_state \<Rightarrow> 'n response \<Rightarrow> 'n card_state
     \<Rightarrow> 'n card_state \<times> 'n event list" where
  "fetchRows_settle props closure resp s =
     (case received resp (selectedRowAttributes props) of
        Inr filteredRows \<Rightarrow>
          (s\<lparr>tableData := (tableData s)\<lparr>rows := filteredRows\<rparr>, isLoading := False\<rparr>,
           [TableDataChange (table_id (table props)) (columns (tableData closure)) filteredRows])
      | Inl err \<Rightarrow>
          (s\<lparr>error := ''Failed to fetch rows. Please check your inputs and try again.'',
             isLoading := False\<rparr>,
           []))"

text \<open>
  A whole run of an effect with nothing in between: the network is a function from the
  request to the way its promise settles.
\<close>

definition fetchColumns ::
  "card_props \<Rightarrow> (request \<Rightarrow> 'n response) \<Rightarrow> 'n card_state \<Rightarrow> 'n card_state \<times> 'n event list" where
  "fetchColumns props net s =
     (case fetchColumns_start props s of
        (s1, out1) \<Rightarrow>
          (case fetchColumns_settle props s (net (columns_request props)) s1 of
             (s2, out2) \<Rightarrow> (s2, out1 @ out2)))"

definition fetchRows ::
  "card_props \<Rightarrow> (request \<Rightarrow> 'n response) \<Rightarrow> 'n card_state \<Rightarrow> 'n card_state \<times> 'n event list" where
  "fetchRows props net s =
     (case fetchRows_start props s s of
        (s1, out1) \<Rightarrow>
          if rowCount s = ''0'' then (s1, out1)
          else (case fetchRows_settle props s (net (rows_request props (rowCount s))) s1 of
                  (s2, out2) \<Rightarrow> (s2, out1 @ out2)))"

text \<open>The error banner is rendered by \<open>{error && ...}\<close>: when the string is not empty.\<close>

definition error_shown :: "'n card_state \<Rightarrow> bool" where
  "error_shown s = (error s \<noteq> '''')"

fun is_request :: "'n event \<Rightarrow> bool" where
  "is_request (HttpGet r) = True"
| "is_request (TableDataChange i c r) = False"

subsection \<open>The cards of a page\<close>

text \<open>
  Every card is its own component instance with its own state; the page holds one card
  for each table, here keyed by the table identifier. An effect of the card of table
  \<open>props\<close> changes that card's state only.
\<close>

type_synonym 'n cards = "string \<Rightarrow> 'n card_state"

definition on_card ::
  "card_props \<Rightarrow> ('n card_state \<Rightarrow> 'n card_state \<times> 'n event list) \<Rightarrow> 'n cards
     \<Rightarrow> 'n cards \<times> 'n event list" where
  "on_card props step cards =
     (case step (cards (table_id (table props))) of
        (s', out) \<Rightarrow> (cards(table_id (table props) := s'), out))"

subsection \<open>The query that axios sends\<close>

text \<open>
  axios leaves out of the query every parameter whose value is null or undefined and
  writes the others as text.
\<close>

definition number_text :: "int \<Rightarrow> string" where
  "number_text i = (if 0 \<le> i then decimal (nat i) else CHR ''-'' # decimal (nat (- i)))"

definition query :: "request \<Rightarrow> (string \<times> string) list" where
  "query r =
     (case params r of
        None \<Rightarrow> []
      | Some p \<Rightarrow>
          (case limit p of
             LimitUndefined \<Rightarrow> []
           | LimitNumber n \<Rightarrow> [(''limit'', number_text n)]
           | LimitNaN \<Rightarrow> [(''limit'', ''NaN'')])
          @ [(''valueFormat'', valueFormat p)])"

section \<open>The attribute filter on a store of objects\<close>

text \<open>
  Whether \<open>filterData\<close> changes its input is a question about objects that are shared
  by reference. Here a value is a primitive or the address of an object or array in a
  store; the store is the list of all objects allocated so far, an address is a
  position in it, and allocation appends. The arrays that \<open>Object.entries\<close>, \<open>filter\<close> and
  \<open>map\<close> build and hand on at once are lists of the model; the objects that
  \<open>Object.fromEntries\<close> returns and the array that \<open>data.map\<close> returns are allocated.
\<close>

type_synonym addr = nat

datatype 'n hval =
    HUndefined
  | HNull
  | HBool bool
  | HNum 'n
  | HStr string
  | HRef addr

datatype 'n hobj =
    HObject "(string \<times> 'n hval) list"
  | HArray "'n hval list"

type_synonym 'n heap = "'n hobj list"

definition alloc :: "'n heap \<Rightarrow> 'n hobj \<Rightarrow> 'n heap \<times> 'n hval" where
  "alloc h obj = (h @ [obj], HRef (length h))"

fun h_typeof :: "'n hval \<Rightarrow> string" where
  "h_typeof HUndefined = ''undefined''"
| "h_typeof HNull = ''object''"
| "h_typeof (HBool b) = ''boolean''"
| "h_typeof (HNum n) = ''number''"
| "h_typeof (HStr s) = ''string''"
| "h_typeof (HRef a) = ''object''"

text \<open>
  \<open>Object.entries\<close> reads the store and changes nothing. An address outside the store
  does not occur in a JavaScript program; the model reports it instead of reading there.
\<close>

fun h_entries :: "'n heap \<Rightarrow> 'n hval \<Rightarrow> js_error + (string \<times> 'n hval) list" where
  "h_entries h HUndefined = Inl TypeError"
| "h_entries h HNull = Inl TypeError"
| "h_entries h (HStr s) = Inr (index_entries (map (\<lambda>c. HStr [c]) s))"
| "h_entries h (HRef a) =
     (if a < length h
      then Inr (case h ! a of HObject kvs \<Rightarrow> kvs | HArray xs \<Rightarrow> index_entries xs)
      else Inl DanglingReference)"
| "h_entries h v = Inr []"

definition h_fromEntries :: "'n heap \<Rightarrow> (string \<times> 'n hval) list \<Rightarrow> 'n heap \<times> 'n hval" where
  "h_fromEntries h es = alloc h (HObject (define_all [] es))"

text \<open>A callback that allocates is mapped over a list from left to right.\<close>

fun hmap :: "('h \<Rightarrow> 'a \<Rightarrow> js_error + ('h \<times> 'b)) \<Rightarrow> 'h \<Rightarrow> 'a list \<Rightarrow> js_error + ('h \<times> 'b list)" where
  "hmap f h [] = Inr (h, [])"
| "hmap f h (x # xs) =
     (case f h x of
        Inl e \<Rightarrow> Inl e
      | Inr (h1, y) \<Rightarrow>
          (case hmap f h1 xs of Inl e \<Rightarrow> Inl e | Inr (h2, ys) \<Rightarrow> Inr (h2, y # ys)))"

fun h_cleanValues ::
  "'n heap \<Rightarrow> string \<times> 'n hval \<Rightarrow> js_error + ('n heap \<times> (string \<times> 'n hval))" where
  "h_cleanValues h (key, value) =
     (if key = ''values'' \<and> h_typeof value = ''object'' \<and> value \<noteq> HNull
      then (case h_entries h value of
              Inl e \<Rightarrow> Inl e
            | Inr es \<Rightarrow>
                (case h_fromEntries h (filter (\<lambda>(_, val). val \<noteq> HStr '''') es) of
                   (h1, filteredValues) \<Rightarrow> Inr (h1, (key, filteredValues))))
      else Inr (h, (key, value)))"

fun h_keepValue :: "string \<times> 'n hval \<Rightarrow> bool" where
  "h_keepValue (_, value) = (value \<noteq> HNull \<and> value \<noteq> HStr '''' \<and> value \<noteq> HUndefined)"

definition h_filterItem ::
  "string list \<Rightarrow> 'n heap \<Rightarrow> 'n hval \<Rightarrow> js_error + ('n heap \<times> 'n hval)" where
  "h_filterItem selectedAttributes h item =
     (case h_entries h item of
        Inl e \<Rightarrow> Inl e
      | Inr es \<Rightarrow>
          (case hmap h_cleanValues h
                  (filter (\<lambda>(key, _). array_includes selectedAttributes key) es) of
             Inl e \<Rightarrow> Inl e
           | Inr (h1, cleaned) \<Rightarrow> Inr (h_fromEntries h1 (filter h_keepValue cleaned))))"

fun h_filterData ::
  "'n heap \<Rightarrow> 'n hval \<Rightarrow> string list \<Rightarrow> js_error + ('n heap \<times> 'n hval)" where
  "h_filterData h (HRef a) selectedAttributes =
     (if a < length h
      then (case h ! a of
              HArray data \<Rightarrow>
                (case hmap (h_filterItem selectedAttributes) h data of
                   Inl e \<Rightarrow> Inl e
                 | Inr (h1, items) \<Rightarrow> Inr (alloc h1 (HArray items)))
            | HObject kvs \<Rightarrow> Inl TypeError)
      else Inl DanglingReference)"
| "h_filterData h v selectedAttributes = Inl TypeError"

text \<open>
  A value of the store represents a JSON value when reading it through the store gives
  that value: primitives are themselves, an address stands for the array or object found
  there, element by element and entry by entry.
\<close>

inductive represents :: "'n heap \<Rightarrow> 'n hval \<Rightarrow> 'n jsval \<Rightarrow> bool" for h :: "'n heap" where
  rep_undefined: "represents h HUndefined JUndefined"
| rep_null: "represents h HNull JNull"
| rep_bool: "represents h (HBool b) (JBool b)"
| rep_num: "represents h (HNum n) (JNum n)"
| rep_str: "represents h (HStr s) (JStr s)"
| rep_array: "a < length h \<Longrightarrow> h ! a = HArray xs \<Longrightarrow> list_all2 (represents h) xs js
     \<Longrightarrow> represents h (HRef a) (JArr js)"
| rep_object: "a < length h \<Longrightarrow> h ! a = HObject kvs
     \<Longrightarrow> list_all2 (\<lambda>kv kj. fst kv = fst kj \<and> represents h (snd kv) (snd kj)) kvs kjs
     \<Longrightarrow> represents h (HRef a) (JObj kjs)"

definition represents_entry ::
  "'n heap \<Rightarrow> string \<times> 'n hval \<Rightarrow> string \<times> 'n jsval \<Rightarrow> bool" where
  "represents_entry h kv kj = (fst kv = fst kj \<and> represents h (snd kv) (snd kj))"

text \<open>
  A store extends another when it begins with it: every object that was there is still
  there, at the same address and with the same content.
\<close>

definition extends :: "'n heap \<Rightarrow> 'n heap \<Rightarrow> bool" where
  "extends h h' = (take (length h) h' = h)"

section \<open>Facts about the selection store\<close>

lemma fcard_fset_of_list_distinct:
  "distinct xs \<Longrightarrow> fcard (fset_of_list xs) = length xs"
  by (induction xs) (simp_all add: fcard_finsert_if fset_of_list_elem)



lemma handleSelectAll_unfold:
  "handleSelectAll tables S =
     (if fcard S = length tables then {||} else fset_of_list (allIds tables))"
  unfolding handleSelectAll_def allIds_def ..

lemma fcard_allIds:
  "distinct (allIds tables) \<Longrightarrow> fcard (fset_of_list (allIds tables)) = length tables"
  using fcard_fset_of_list_distinct [of "allIds tables"] by (simp add: allIds_def)




text \<open>
  The size test of the handler is the equality test only on selections of listed tables:
  a selection of one identifier that is no listed table has the size of a list of one
  table and is cleared. Neither handler produces such a selection.
\<close>

lemma size_test_outside_listed_tables:
  "handleSelectAll [mk_table ''a''] {|''x''|} = {||} \<and>
   {|''x''|} \<noteq> fset_of_list (allIds [mk_table ''a''])"
  by (simp add: handleSelectAll_def allIds_def mk_table_def fcard_finsert_if)



text \<open>
  C2 as stated fails: from a partial selection the first call selects every table and the
  second call clears the selection, which is not the original selection.
\<close>

theorem selectAll_twice_counterexample:
  "handleSelectAll [mk_table ''a'', mk_table ''b'']
     (handleSelectAll [mk_table ''a'', mk_table ''b''] {|''a''|}) = {||}
   \<and> {|''a''|} \<noteq> ({||} :: string fset)"
  by (simp add: handleSelectAll_def mk_table_def fcard_finsert_if fcard_fempty)

text \<open>
  C2 (amended): when the table identifiers are pairwise distinct, invoking select-all twice
  with the same table list restores the original selection exactly when that selection is
  empty or is the complete list of identifiers; from every other selection the two calls
  do not restore it.
\<close>

theorem selectAll_twice:
  assumes "distinct (allIds tables)"
  shows "handleSelectAll tables (handleSelectAll tables S) = S
         \<longleftrightarrow> S = {||} \<or> S = fset_of_list (allIds tables)"
proof -
  have full: "fcard (fset_of_list (allIds tables)) = length tables"
    using assms by (rule fcard_allIds)
  show ?thesis
  proof (cases "fcard S = length tables")
    case True
    then have one: "handleSelectAll tables S = {||}"
      by (simp add: handleSelectAll_unfold)
    show ?thesis
    proof (cases "tables = []")
      case True
      with \<open>fcard S = length tables\<close> have "S = {||}" by simp
      with True show ?thesis
        by (simp add: handleSelectAll_unfold fcard_fempty)
    next
      case False
      then have two: "handleSelectAll tables {||} = fset_of_list (allIds tables)"
        by (simp add: handleSelectAll_unfold fcard_fempty)
      from False \<open>fcard S = length tables\<close> have "S \<noteq> {||}"
        by (auto simp: fcard_fempty)
      then show ?thesis
        unfolding one two by fastforce
    qed
  next
    case False
    then have one: "handleSelectAll tables S = fset_of_list (allIds tables)"
      by (simp add: handleSelectAll_unfold)
    have two: "handleSelectAll tables (fset_of_list (allIds tables)) = {||}"
      by (simp add: handleSelectAll_unfold full)
    from False full have "S \<noteq> fset_of_list (allIds tables)"
      by auto
    then show ?thesis
      unfolding one two by fastforce
  qed
qed

theorem selectAll_twice_witness:
  "distinct (allIds [mk_table ''a'', mk_table ''b''])
   \<and> handleSelectAll [mk_table ''a'', mk_table ''b'']
       (handleSelectAll [mk_table ''a'', mk_table ''b''] {||}) = {||}
   \<and> handleSelectAll [mk_table ''a'', mk_table ''b'']
       (handleSelectAll [mk_table ''a'', mk_table ''b''] {|''a'', ''b''|}) = {|''a'', ''b''|}"
proof -
  have d: "distinct (allIds [mk_table ''a'', mk_table ''b''])"
    by (simp add: allIds_def mk_table_def)
  have v: "fset_of_list (allIds [mk_table ''a'', mk_table ''b'']) = {|''a'', ''b''|}"
    by (simp add: allIds_def mk_table_def)
  show ?thesis
    using d selectAll_twice [OF d, of "{||}"] selectAll_twice [OF d, of "{|''a'', ''b''|}"]
    by (simp add: v)
qed

section \<open>Facts about the attribute filter\<close>

subsection \<open>Rebuilding an object from entries\<close>

lemma define_all_Nil: "define_all obj [] = obj"
  by (simp add: define_all_def)

lemma define_all_Cons: "define_all obj ((k, v) # es) = define_all (set_property obj k v) es"
  by (simp add: define_all_def)

lemma set_property_fresh: "k \<notin> fst ` set obj \<Longrightarrow> set_property obj k v = obj @ [(k, v)]"
  by (induction obj) auto

lemma define_all_distinct:
  "distinct (map fst (obj @ es)) \<Longrightarrow> define_all obj es = obj @ es"
proof (induction es arbitrary: obj)
  case Nil
  show ?case by (simp add: define_all_Nil)
next
  case (Cons e es)
  obtain k v where e: "e = (k, v)" by (cases e)
  from Cons.prems e have fresh: "k \<notin> fst ` set obj" by auto
  from Cons.prems e have "distinct (map fst ((obj @ [(k, v)]) @ es))" by auto
  then have "define_all (obj @ [(k, v)]) es = (obj @ [(k, v)]) @ es"
    by (rule Cons.IH)
  then show ?case
    by (simp add: e define_all_Cons set_property_fresh [OF fresh])
qed

lemma Object_fromEntries_distinct:
  "distinct (map fst es) \<Longrightarrow> Object_fromEntries es = JObj es"
  using define_all_distinct [of "[]" es] by (simp add: Object_fromEntries_def)

lemma keys_set_property:
  "map fst (set_property obj k v) =
     (if k \<in> fst ` set obj then map fst obj else map fst obj @ [k])"
  by (induction obj) force+

lemma distinct_set_property:
  "distinct (map fst obj) \<Longrightarrow> distinct (map fst (set_property obj k v))"
  by (simp add: keys_set_property)

lemma distinct_define_all:
  "distinct (map fst obj) \<Longrightarrow> distinct (map fst (define_all obj es))"
proof (induction es arbitrary: obj)
  case Nil
  then show ?case by (simp add: define_all_Nil)
next
  case (Cons e es)
  obtain k v where e: "e = (k, v)" by (cases e)
  from Cons.prems have "distinct (map fst (set_property obj k v))"
    by (rule distinct_set_property)
  then have "distinct (map fst (define_all (set_property obj k v) es))"
    by (rule Cons.IH)
  then show ?case by (simp add: e define_all_Cons)
qed

lemma set_set_property: "set (set_property obj k v) \<subseteq> insert (k, v) (set obj)"
  by (induction obj) (auto split: if_splits)

lemma set_define_all: "set (define_all obj es) \<subseteq> set obj \<union> set es"
proof (induction es arbitrary: obj)
  case Nil
  show ?case by (simp add: define_all_Nil)
next
  case (Cons e es)
  obtain k v where e: "e = (k, v)" by (cases e)
  have "set (define_all (set_property obj k v) es) \<subseteq> set (set_property obj k v) \<union> set es"
    by (rule Cons.IH)
  with set_set_property [of obj k v] show ?case
    by (auto simp: e define_all_Cons)
qed

lemma set_Object_fromEntries: "set (define_all [] es) \<subseteq> set es"
  using set_define_all [of "[]" es] by simp

subsection \<open>Index keys are pairwise distinct\<close>

lemma digit_char_inj: "a < 10 \<Longrightarrow> b < 10 \<Longrightarrow> digit_char a = digit_char b \<Longrightarrow> a = b"
proof -
  assume a: "a < 10" and b: "b < 10" and eq: "digit_char a = digit_char b"
  have d: "distinct ''0123456789''" by simp
  have l: "length ''0123456789'' = 10" by simp
  from eq have "''0123456789'' ! a = ''0123456789'' ! b"
    by (simp only: digit_char_def)
  with d a b l show "a = b"
    by (simp only: nth_eq_iff_index_eq)
qed

lemma decimal_nonempty: "decimal n \<noteq> []"
  by (subst decimal.simps) simp

lemma decimal_small: "n < 10 \<Longrightarrow> decimal n = [digit_char n]"
  by (subst decimal.simps) simp

lemma decimal_big:
  "\<not> n < 10 \<Longrightarrow> decimal n = decimal (n div 10) @ [digit_char (n mod 10)]"
  by (subst decimal.simps) simp

lemma decimal_inj: "decimal n = decimal m \<Longrightarrow> n = m"
proof (induction n arbitrary: m rule: decimal.induct)
  case (1 n)
  show ?case
  proof (cases "n < 10")
    case nsmall: True
    show ?thesis
    proof (cases "m < 10")
      case True
      with nsmall "1.prems" show ?thesis
        by (simp add: decimal_small digit_char_inj)
    next
      case False
      with nsmall "1.prems" decimal_nonempty [of "m div 10"] show ?thesis
        by (simp add: decimal_small decimal_big)
    qed
  next
    case nbig: False
    show ?thesis
    proof (cases "m < 10")
      case True
      with nbig "1.prems" decimal_nonempty [of "n div 10"] show ?thesis
        by (simp add: decimal_small decimal_big)
    next
      case False
      with nbig "1.prems" have firstd: "decimal (n div 10) = decimal (m div 10)"
        and lastd: "digit_char (n mod 10) = digit_char (m mod 10)"
        by (simp_all add: decimal_big)
      from nbig have "10 \<le> n" by simp
      from this firstd have q: "n div 10 = m div 10"
        by (rule "1.IH")
      have "n mod 10 < 10" and "m mod 10 < 10" by simp_all
      then have r: "n mod 10 = m mod 10"
        using lastd by (rule digit_char_inj)
      from q r show ?thesis
        by (metis div_mult_mod_eq)
    qed
  qed
qed

lemma inj_decimal: "inj decimal"
  by (rule injI) (rule decimal_inj)

lemma keys_index_entries: "map fst (index_entries xs) = map decimal [0..<length xs]"
  by (simp add: index_entries_def)

lemma distinct_index_entries: "distinct (map fst (index_entries xs))"
  by (simp add: keys_index_entries distinct_map inj_decimal [THEN inj_on_subset])

subsection \<open>The filter on one item\<close>

lemma Object_entries_object:
  "typeof v = ''object'' \<Longrightarrow> v \<noteq> JNull \<Longrightarrow> Object_entries v = Inr (own_entries v)"
  by (cases v) (simp_all add: Object_entries_def)

lemma cleanValues_key: "fst (cleanValues e) = fst e"
  by (cases e) simp

lemma keys_cleanValues: "map fst (map cleanValues es) = map fst es"
  by (simp add: cleanValues_key)

lemma distinct_pipeline:
  "distinct (map fst es) \<Longrightarrow> distinct (map fst (filter Q (map cleanValues (filter P es))))"
proof -
  assume "distinct (map fst es)"
  then have "distinct (map fst (filter P es))"
    by (rule distinct_map_filter)
  then have "distinct (map fst (map cleanValues (filter P es)))"
    by (simp only: keys_cleanValues)
  then show ?thesis
    by (rule distinct_map_filter)
qed

lemma filterItem_record:
  "distinct (map fst R) \<Longrightarrow>
   filterItem A (JObj R) =
     Inr (JObj (filter keepValue (map cleanValues
                  (filter (\<lambda>(key, _). array_includes A key) R))))"
  by (simp add: filterItem_def Object_entries_def Object_fromEntries_distinct distinct_pipeline)

lemma filterData_single:
  "filterData (JArr [item]) A =
     (case filterItem A item of Inl e \<Rightarrow> Inl e | Inr out \<Rightarrow> Inr (JArr [out]))"
  by (simp split: sum.splits)









subsection \<open>The attribute \<open>values\<close>\<close>

lemma pipeline_member:
  "(k, v') \<in> set (filter keepValue (map cleanValues
       (filter (\<lambda>(key, _). array_includes A key) R)))
   \<longleftrightarrow> k \<in> set A \<and> keepValue (k, v') \<and> (\<exists>v. (k, v) \<in> set R \<and> cleanValues (k, v) = (k, v'))"
proof
  assume "(k, v') \<in> set (filter keepValue (map cleanValues
       (filter (\<lambda>(key, _). array_includes A key) R)))"
  then obtain a b where e: "(a, b) \<in> set R" "array_includes A a"
      "cleanValues (a, b) = (k, v')"
    and keep: "keepValue (k, v')"
    by (auto simp: case_prod_beta simp del: cleanValues.simps keepValue.simps)
  from e(3) cleanValues_key [of "(a, b)"] have "a = k" by simp
  with e keep show "k \<in> set A \<and> keepValue (k, v')
      \<and> (\<exists>v. (k, v) \<in> set R \<and> cleanValues (k, v) = (k, v'))"
    unfolding array_includes_def by blast
next
  assume "k \<in> set A \<and> keepValue (k, v')
      \<and> (\<exists>v. (k, v) \<in> set R \<and> cleanValues (k, v) = (k, v'))"
  then obtain v where "k \<in> set A" "keepValue (k, v')" "(k, v) \<in> set R"
    "cleanValues (k, v) = (k, v')"
    by blast
  then show "(k, v') \<in> set (filter keepValue (map cleanValues
       (filter (\<lambda>(key, _). array_includes A key) R)))"
    by (force simp: array_includes_def simp del: cleanValues.simps keepValue.simps)
qed

lemma values_attribute:
  assumes d: "distinct (map fst R)" and v: "(''values'', v) \<in> set R"
    and a: "''values'' \<in> set A"
    and c: "cleanValues (''values'', v) = (''values'', w)" and k: "keepValue (''values'', w)"
  shows "\<exists>R'. filterData (JArr [JObj R]) A = Inr (JArr [JObj R'])
           \<and> (\<forall>v'. (''values'', v') \<in> set R' \<longleftrightarrow> v' = w)"
proof -
  let ?R' = "filter keepValue (map cleanValues (filter (\<lambda>(key, _). array_includes A key) R))"
  have run: "filterData (JArr [JObj R]) A = Inr (JArr [JObj ?R'])"
    by (simp add: filterData_single filterItem_record [OF d])
  have "(''values'', v') \<in> set ?R' \<longleftrightarrow> v' = w" for v'
  proof
    assume "(''values'', v') \<in> set ?R'"
    then obtain u where u: "(''values'', u) \<in> set R"
      and cu: "cleanValues (''values'', u) = (''values'', v')"
      unfolding pipeline_member by blast
    from d u v have "u = v" by (rule eq_key_imp_eq_value)
    with cu c show "v' = w" by simp
  next
    assume "v' = w"
    with a k v c show "(''values'', v') \<in> set ?R'"
      unfolding pipeline_member by blast
  qed
  with run show ?thesis by blast
qed

text \<open>
  C9: for every record whose \<open>values\<close> attribute holds an array, with \<open>values\<close> in the
  allow-list, the filtered record binds \<open>values\<close> to a plain object: the mapping from the
  decimal index strings to the elements, without the elements that are the empty string.
  The output \<open>values\<close> is not an array.
\<close>

theorem filterData_array_values:
  assumes "distinct (map fst R)" and "(''values'', JArr xs) \<in> set R" and "''values'' \<in> set A"
  shows "\<exists>R'. filterData (JArr [JObj R]) A = Inr (JArr [JObj R'])
           \<and> (\<forall>v'. (''values'', v') \<in> set R' \<longleftrightarrow>
                 v' = JObj (filter (\<lambda>(_, val). val \<noteq> JStr '''')
                             (zip (map decimal [0..<length xs]) xs)))
           \<and> (\<forall>ys. (''values'', JArr ys) \<notin> set R')"
proof -
  let ?w = "JObj (filter (\<lambda>(_, val). val \<noteq> JStr '''') (index_entries xs))"
  have "distinct (map fst (filter (\<lambda>(_, val). val \<noteq> JStr '''') (index_entries xs)))"
    using distinct_index_entries by (rule distinct_map_filter)
  then have c: "cleanValues (''values'', JArr xs) = (''values'', ?w)"
    by (simp add: Object_fromEntries_distinct)
  have k: "keepValue (''values'', ?w)"
    by simp
  from values_attribute [OF assms c k]
  obtain R' where run: "filterData (JArr [JObj R]) A = Inr (JArr [JObj R'])"
    and only: "\<And>v'. (''values'', v') \<in> set R' \<longleftrightarrow> v' = ?w"
    by blast
  from only have "(''values'', JArr ys) \<notin> set R'" for ys
    by simp
  with run only show ?thesis
    unfolding index_entries_def by blast
qed

theorem filterData_array_values_witness:
  "distinct (map fst [(''id'', JStr ''r1''), (''values'', JArr [JStr ''x'', JStr '''', JNum (3::int)])])
   \<and> (''values'', JArr [JStr ''x'', JStr '''', JNum (3::int)])
        \<in> set [(''id'', JStr ''r1''), (''values'', JArr [JStr ''x'', JStr '''', JNum 3])]
   \<and> ''values'' \<in> set [''id'', ''values'']
   \<and> (\<exists>R'. filterData (JArr [JObj [(''id'', JStr ''r1''),
                  (''values'', JArr [JStr ''x'', JStr '''', JNum (3::int)])]])
                [''id'', ''values''] = Inr (JArr [JObj R'])
          \<and> (''values'', JObj [(''0'', JStr ''x''), (''2'', JNum 3)]) \<in> set R')"
proof -
  let ?xs = "[JStr ''x'', JStr '''', JNum (3::int)]"
  let ?R = "[(''id'', JStr ''r1''), (''values'', JArr ?xs)]"
  let ?A = "[''id'', ''values'']"
  have d: "distinct (map fst ?R)" by simp
  have m: "(''values'', JArr ?xs) \<in> set ?R" by simp
  have a: "''values'' \<in> set ?A" by simp
  have z: "zip (map decimal [0..<length ?xs]) ?xs
      = [(''0'', JStr ''x''), (''1'', JStr ''''), (''2'', JNum 3)]"
    by (simp add: upt_rec decimal.simps digit_char_def)
  from filterData_array_values [OF d m a]
  obtain R' where run: "filterData (JArr [JObj ?R]) ?A = Inr (JArr [JObj R'])"
    and only: "\<And>v'. (''values'', v') \<in> set R' \<longleftrightarrow>
                 v' = JObj (filter (\<lambda>(_, val). val \<noteq> JStr '''')
                             (zip (map decimal [0..<length ?xs]) ?xs))"
    by blast
  have "(''values'', JObj [(''0'', JStr ''x''), (''2'', JNum 3)]) \<in> set R'"
    unfolding only z by simp
  with d m a run show ?thesis by blast
qed

text \<open>
  C10: for every record whose \<open>values\<close> attribute is a mapping in which every entry is
  the empty string, with \<open>values\<close> in the allow-list, the filtered record still has the
  attribute \<open>values\<close>, bound to the empty mapping: the top-level drop of null, empty-string
  and undefined values does not remove an empty object.
\<close>

theorem filterData_empty_values:
  assumes "distinct (map fst R)" and "(''values'', JObj es) \<in> set R"
    and "list_all (\<lambda>(_, val). val = JStr '''') es" and "''values'' \<in> set A"
  shows "\<exists>R'. filterData (JArr [JObj R]) A = Inr (JArr [JObj R'])
           \<and> (\<forall>v'. (''values'', v') \<in> set R' \<longleftrightarrow> v' = JObj [])"
proof -
  from assms(3) have "filter (\<lambda>(_, val). val \<noteq> JStr '''') es = []"
    by (auto simp: list_all_iff filter_empty_conv)
  then have c: "cleanValues (''values'', JObj es) = (''values'', JObj [])"
    by (simp add: Object_fromEntries_def define_all_Nil)
  have k: "keepValue (''values'', JObj [])"
    by simp
  from values_attribute [OF assms(1) assms(2) assms(4) c k] show ?thesis .
qed

theorem filterData_empty_values_witness:
  "distinct (map fst [(''id'', JStr ''r1''), (''values'', JObj [(''Amount'', JStr ''''), (''Date'', JStr '''')] :: int jsval)])
   \<and> list_all (\<lambda>(_, val). val = (JStr '''' :: int jsval)) [(''Amount'', JStr ''''), (''Date'', JStr '''')]
   \<and> (\<exists>R'. filterData (JArr [JObj [(''id'', JStr ''r1''),
                  (''values'', JObj [(''Amount'', JStr ''''), (''Date'', JStr '''')])]])
                [''id'', ''values''] = Inr (JArr [JObj R' :: int jsval])
          \<and> (''values'', JObj []) \<in> set R')"
proof -
  let ?es = "[(''Amount'', JStr ''''), (''Date'', JStr '''')] :: (string \<times> int jsval) list"
  let ?R = "[(''id'', JStr ''r1''), (''values'', JObj ?es)]"
  let ?A = "[''id'', ''values'']"
  have d: "distinct (map fst ?R)" by simp
  have m: "(''values'', JObj ?es) \<in> set ?R" by simp
  have e: "list_all (\<lambda>(_, val). val = JStr '''') ?es" by simp
  have a: "''values'' \<in> set ?A" by simp
  from filterData_empty_values [OF d m e a]
  obtain R' where "filterData (JArr [JObj ?R]) ?A = Inr (JArr [JObj R'])"
    and "(''values'', JObj []) \<in> set R'"
    by blast
  with d e show ?thesis by blast
qed

subsection \<open>Filtering again\<close>

lemma cleanValues_idem: "cleanValues (cleanValues e) = cleanValues e"
proof (cases e)
  case (Pair k v)
  show ?thesis
  proof (cases "k = ''values'' \<and> typeof v = ''object'' \<and> v \<noteq> JNull")
    case False
    with Pair show ?thesis by auto
  next
    case True
    let ?L = "define_all [] (filter (\<lambda>(_, val). val \<noteq> JStr '''') (own_entries v))"
    from True Pair have one: "cleanValues e = (k, JObj ?L)"
      by (simp add: Object_fromEntries_def)
    have "set ?L \<subseteq> set (filter (\<lambda>(_, val). val \<noteq> JStr '''') (own_entries v))"
      by (rule set_Object_fromEntries)
    then have "filter (\<lambda>(_, val). val \<noteq> JStr '''') ?L = ?L"
      by (auto simp: filter_id_conv)
    moreover have "distinct (map fst ?L)"
      by (rule distinct_define_all) simp
    then have "Object_fromEntries ?L = JObj ?L"
      by (rule Object_fromEntries_distinct)
    ultimately have "cleanValues (k, JObj ?L) = (k, JObj ?L)"
      using True by simp
    with one show ?thesis by simp
  qed
qed

lemma filterItem_fixed:
  assumes "distinct (map fst R)"
    and "\<And>e. e \<in> set R \<Longrightarrow> array_includes A (fst e) \<and> cleanValues e = e \<and> keepValue e"
  shows "filterItem A (JObj R) = Inr (JObj R)"
proof -
  from assms(2) have "filter (\<lambda>(key, _). array_includes A key) R = R"
    by (auto simp: filter_id_conv)
  moreover from assms(2) have "map cleanValues R = R"
    by (simp add: map_idI)
  moreover from assms(2) have "filter keepValue R = R"
    by (simp add: filter_id_conv)
  ultimately show ?thesis
    by (simp add: filterItem_record [OF assms(1)])
qed

lemma filterItem_idem:
  assumes "filterItem A item = Inr out"
  shows "filterItem A out = Inr out"
proof -
  from assms obtain es where es: "Object_entries item = Inr es"
    by (auto simp: filterItem_def split: sum.splits)
  let ?F = "filter keepValue (map cleanValues (filter (\<lambda>(key, _). array_includes A key) es))"
  let ?R = "define_all [] ?F"
  from assms es have out: "out = JObj ?R"
    by (simp add: filterItem_def Object_fromEntries_def)
  have d: "distinct (map fst ?R)"
    by (rule distinct_define_all) simp
  have sub: "set ?R \<subseteq> set ?F"
    by (rule set_Object_fromEntries)
  have "array_includes A (fst e) \<and> cleanValues e = e \<and> keepValue e" if "e \<in> set ?R" for e
  proof -
    from that sub have "e \<in> set ?F" by blast
    then obtain e0 where e0: "array_includes A (fst e0)" "e = cleanValues e0" and keep: "keepValue e"
      by (auto simp: case_prod_beta simp del: cleanValues.simps keepValue.simps)
    from e0 have "array_includes A (fst e)"
      by (simp add: cleanValues_key del: cleanValues.simps)
    moreover from e0 have "cleanValues e = e"
      by (simp add: cleanValues_idem del: cleanValues.simps)
    ultimately show ?thesis using keep by blast
  qed
  with d have "filterItem A (JObj ?R) = Inr (JObj ?R)"
    by (rule filterItem_fixed)
  with out show ?thesis by simp
qed

lemma map_result_idem:
  assumes "\<And>x y. f x = Inr y \<Longrightarrow> f y = Inr y"
  shows "map_result f xs = Inr ys \<Longrightarrow> map_result f ys = Inr ys"
proof (induction xs arbitrary: ys)
  case Nil
  then show ?case by simp
next
  case (Cons x xs)
  from Cons.prems obtain y ys' where y: "f x = Inr y" and ys': "map_result f xs = Inr ys'"
    and ys: "ys = y # ys'"
    by (auto split: sum.splits)
  from y have "f y = Inr y" by (rule assms)
  moreover from ys' have "map_result f ys' = Inr ys'" by (rule Cons.IH)
  ultimately show ?case by (simp add: ys)
qed

lemma filterData_idem: "filterData data A = Inr out \<Longrightarrow> filterData out A = Inr out"
proof (cases data)
  case (JArr xs)
  assume "filterData data A = Inr out"
  with JArr obtain ys where ys: "map_result (filterItem A) xs = Inr ys" and out: "out = JArr ys"
    by (auto split: sum.splits)
  from ys have "map_result (filterItem A) ys = Inr ys"
    by (rule map_result_idem [rotated]) (rule filterItem_idem)
  with out show ?thesis by simp
qed simp_all

lemma filterData_record_total: "\<exists>out. filterData (JArr [JObj R]) A = Inr out"
  by (simp add: filterData_single filterItem_def Object_entries_def)

text \<open>
  C4: for every record \<open>R\<close> and allow-list \<open>A\<close>, filtering \<open>[R]\<close> succeeds and filtering the
  result again with \<open>A\<close> returns that result unchanged. The same holds for every input
  sequence: a second pass over the output of a first pass changes nothing, and an input on
  which the filter throws has no output to filter again.
\<close>

theorem filterData_idempotent:
  "(\<exists>out. filterData (JArr [JObj R]) A = Inr out \<and> filterData out A = Inr out)
   \<and> (case filterData data A of Inl e \<Rightarrow> Inl e | Inr out \<Rightarrow> filterData out A) = filterData data A"
proof -
  obtain out where out: "filterData (JArr [JObj R]) A = Inr out"
    using filterData_record_total by blast
  then have "filterData out A = Inr out"
    by (rule filterData_idem)
  with out have first: "\<exists>out. filterData (JArr [JObj R]) A = Inr out \<and> filterData out A = Inr out"
    by blast
  have second: "(case filterData data A of Inl e \<Rightarrow> Inl e | Inr out \<Rightarrow> filterData out A)
      = filterData data A"
    by (cases "filterData data A") (simp_all add: filterData_idem)
  from first second show ?thesis by blast
qed

theorem filterData_idempotent_witness:
  "filterData (JArr [JObj [(''id'', JStr ''r1''), (''href'', JStr ''u''), (''note'', JNull),
       (''values'', JObj [(''Amount'', JStr ''''), (''Date'', JStr ''2024-01-01'')])]])
     [''id'', ''note'', ''values'']
   = Inr (JArr [JObj [(''id'', JStr ''r1''),
       (''values'', JObj [(''Date'', JStr ''2024-01-01'')])] :: int jsval])
   \<and> filterData (JArr [JObj [(''id'', JStr ''r1''),
       (''values'', JObj [(''Date'', JStr ''2024-01-01'')])] :: int jsval])
     [''id'', ''note'', ''values'']
   = Inr (JArr [JObj [(''id'', JStr ''r1''),
       (''values'', JObj [(''Date'', JStr ''2024-01-01'')])]])"
proof -
  let ?R = "[(''id'', JStr ''r1''), (''href'', JStr ''u''), (''note'', JNull),
       (''values'', JObj [(''Amount'', JStr ''''), (''Date'', JStr ''2024-01-01'')])]
       :: (string \<times> int jsval) list"
  let ?A = "[''id'', ''note'', ''values'']"
  have run: "filterData (JArr [JObj ?R]) ?A
    = Inr (JArr [JObj [(''id'', JStr ''r1''),
        (''values'', JObj [(''Date'', JStr ''2024-01-01'')])]])"
    by (simp add: filterItem_def Object_entries_def Object_fromEntries_def define_all_def
        array_includes_def)
  from filterData_idempotent [of ?R ?A "JArr [JObj ?R]"] run show ?thesis
    by (auto simp del: filterData.simps)
qed

section \<open>Facts about the table data fetcher\<close>

lemma parseInt_one: "parseInt ''1'' = Some 1"
  by (simp add: parseInt_def is_space_def is_digit_def digit_value_def)

lemma received_Rejected: "received Rejected attrs = Inl RequestFailed"
  by (simp add: received_def)

lemma fetchRows_start_none:
  "rowCount closure = ''0'' \<Longrightarrow>
   fetchRows_start props closure s =
     (s\<lparr>isLoading := True, error := '''',
        tableData := (tableData s)\<lparr>rows := JArr []\<rparr>, isLoading := False\<rparr>,
      [TableDataChange (table_id (table props)) (columns (tableData closure)) (JArr [])])"
  by (simp add: fetchRows_start_def)

lemma fetchRows_start_request:
  "rowCount closure \<noteq> ''0'' \<Longrightarrow>
   fetchRows_start props closure s =
     (s\<lparr>isLoading := True, error := ''''\<rparr>, [HttpGet (rows_request props (rowCount closure))])"
  by (simp add: fetchRows_start_def)

text \<open>
  C5: whenever the row mode of a card is None (\<open>rowCount\<close> is \<open>'0'\<close>, Columns Only), the fetch
  step issues no row request: its only effect outside the card is the call of the parent's
  callback, with an empty row sequence. The rows stored for the table are the empty
  sequence and the stored columns are untouched. The whole run equals its first part,
  whatever the network would have answered.
\<close>

theorem fetchRows_none_no_request:
  assumes "rowCount closure = ''0''"
  shows "filter is_request (snd (fetchRows_start props closure s)) = []
         \<and> snd (fetchRows_start props closure s) =
             [TableDataChange (table_id (table props)) (columns (tableData closure)) (JArr [])]
         \<and> rows (tableData (fst (fetchRows_start props closure s))) = JArr []
         \<and> columns (tableData (fst (fetchRows_start props closure s))) = columns (tableData s)
         \<and> fetchRows props net closure = fetchRows_start props closure closure"
proof -
  note start = fetchRows_start_none [OF assms]
  have "filter is_request (snd (fetchRows_start props closure s)) = []"
    by (simp add: start)
  moreover have "snd (fetchRows_start props closure s) =
      [TableDataChange (table_id (table props)) (columns (tableData closure)) (JArr [])]"
    by (simp add: start)
  moreover have "rows (tableData (fst (fetchRows_start props closure s))) = JArr []"
    by (simp add: start)
  moreover have "columns (tableData (fst (fetchRows_start props closure s)))
      = columns (tableData s)"
    by (simp add: start)
  moreover have "fetchRows props net closure = fetchRows_start props closure closure"
    using assms by (simp add: fetchRows_def split: prod.splits)
  ultimately show ?thesis by blast
qed

theorem fetchRows_none_no_request_witness:
  "rowCount (initial_state\<lparr>rowCount := ''0'',
       tableData := \<lparr>columns = JArr [], rows = JArr [JObj [(''id'', JStr ''r1'')]]\<rparr>\<rparr>
       :: int card_state) = ''0''
   \<and> snd (fetchRows \<lparr>table = mk_table ''t1'', apiToken = ''k'', docId = ''d'',
                     selectedColumnAttributes = [''id''], selectedRowAttributes = [''id'']\<rparr>
             (\<lambda>r. Rejected)
             (initial_state\<lparr>rowCount := ''0'',
                tableData := \<lparr>columns = JArr [], rows = JArr [JObj [(''id'', JStr ''r1'')]]\<rparr>\<rparr>
              :: int card_state))
       = [TableDataChange ''t1'' (JArr []) (JArr [])]
   \<and> rows (tableData (fst (fetchRows \<lparr>table = mk_table ''t1'', apiToken = ''k'', docId = ''d'',
                     selectedColumnAttributes = [''id''], selectedRowAttributes = [''id'']\<rparr>
             (\<lambda>r. Rejected)
             (initial_state\<lparr>rowCount := ''0'',
                tableData := \<lparr>columns = JArr [], rows = JArr [JObj [(''id'', JStr ''r1'')]]\<rparr>\<rparr>
              :: int card_state)))) = JArr []"
proof -
  let ?s = "initial_state\<lparr>rowCount := ''0'',
       tableData := \<lparr>columns = JArr [], rows = JArr [JObj [(''id'', JStr ''r1'')]]\<rparr>\<rparr>
       :: int card_state"
  let ?p = "\<lparr>table = mk_table ''t1'', apiToken = ''k'', docId = ''d'',
             selectedColumnAttributes = [''id''], selectedRowAttributes = [''id'']\<rparr>"
  have h: "rowCount ?s = ''0''" by simp
  from fetchRows_none_no_request [OF h, of ?p ?s "\<lambda>r. Rejected"]
  have "snd (fetchRows ?p (\<lambda>r. Rejected) ?s)
          = [TableDataChange (table_id (table ?p)) (columns (tableData ?s)) (JArr [])]"
    and "rows (tableData (fst (fetchRows ?p (\<lambda>r. Rejected) ?s))) = JArr []"
    by simp_all
  then show ?thesis
    by (simp add: mk_table_def)
qed

text \<open>
  C8: when the row mode of a card is One (\<open>rowCount\<close> is \<open>'1'\<close>), the fetch step issues one
  row request whose \<open>limit\<close> parameter is the number 1, sent as \<open>limit=1\<close>. When the row mode
  is All, it issues one row request whose \<open>limit\<close> is undefined, so that the query sent has
  no \<open>limit\<close> parameter.
\<close>

theorem fetchRows_limit:
  "(rowCount closure = ''1'' \<longrightarrow>
      (\<exists>r p. snd (fetchRows_start props closure s) = [HttpGet r]
           \<and> params r = Some p \<and> limit p = LimitNumber 1
           \<and> map_of (query r) ''limit'' = Some ''1''))
   \<and> (rowCount closure = ''All'' \<longrightarrow>
      (\<exists>r p. snd (fetchRows_start props closure s) = [HttpGet r]
           \<and> params r = Some p \<and> limit p = LimitUndefined
           \<and> ''limit'' \<notin> fst ` set (query r)))"
proof (intro conjI impI)
  assume one: "rowCount closure = ''1''"
  then have "snd (fetchRows_start props closure s) = [HttpGet (rows_request props ''1'')]"
    by (simp add: fetchRows_start_request)
  moreover have "params (rows_request props ''1'')
      = Some \<lparr>limit = LimitNumber 1, valueFormat = ''simpleWithArrays''\<rparr>"
    by (simp add: rows_request_def parseInt_one)
  moreover have "map_of (query (rows_request props ''1'')) ''limit'' = Some ''1''"
    by (simp add: query_def rows_request_def parseInt_one number_text_def
        decimal.simps digit_char_def)
  ultimately show "\<exists>r p. snd (fetchRows_start props closure s) = [HttpGet r]
           \<and> params r = Some p \<and> limit p = LimitNumber 1
           \<and> map_of (query r) ''limit'' = Some ''1''"
    by force
next
  assume all: "rowCount closure = ''All''"
  then have "snd (fetchRows_start props closure s) = [HttpGet (rows_request props ''All'')]"
    by (simp add: fetchRows_start_request)
  moreover have "params (rows_request props ''All'')
      = Some \<lparr>limit = LimitUndefined, valueFormat = ''simpleWithArrays''\<rparr>"
    by (simp add: rows_request_def)
  moreover have "''limit'' \<notin> fst ` set (query (rows_request props ''All''))"
    by (simp add: query_def rows_request_def)
  ultimately show "\<exists>r p. snd (fetchRows_start props closure s) = [HttpGet r]
           \<and> params r = Some p \<and> limit p = LimitUndefined
           \<and> ''limit'' \<notin> fst ` set (query r)"
    by force
qed

theorem fetchRows_limit_witness:
  "rowCount (initial_state :: int card_state) = ''1''
   \<and> rowCount (initial_state\<lparr>rowCount := ''All''\<rparr> :: int card_state) = ''All''
   \<and> (\<exists>r. snd (fetchRows_start \<lparr>table = mk_table ''t1'', apiToken = ''k'', docId = ''d'',
                     selectedColumnAttributes = [''id''], selectedRowAttributes = [''id'']\<rparr>
                 (initial_state :: int card_state) initial_state) = [HttpGet r]
          \<and> map_of (query r) ''limit'' = Some ''1'')
   \<and> (\<exists>r. snd (fetchRows_start \<lparr>table = mk_table ''t1'', apiToken = ''k'', docId = ''d'',
                     selectedColumnAttributes = [''id''], selectedRowAttributes = [''id'']\<rparr>
                 (initial_state\<lparr>rowCount := ''All''\<rparr> :: int card_state) initial_state)
              = [HttpGet r]
          \<and> ''limit'' \<notin> fst ` set (query r))"
proof -
  let ?p = "\<lparr>table = mk_table ''t1'', apiToken = ''k'', docId = ''d'',
             selectedColumnAttributes = [''id''], selectedRowAttributes = [''id'']\<rparr>"
  let ?one = "initial_state :: int card_state"
  let ?all = "initial_state\<lparr>rowCount := ''All''\<rparr> :: int card_state"
  have h1: "rowCount ?one = ''1''" by (simp add: initial_state_def)
  have h2: "rowCount ?all = ''All''" by simp
  from fetchRows_limit [of ?one ?p ?one] h1
  have a: "\<exists>r. snd (fetchRows_start ?p ?one ?one) = [HttpGet r]
      \<and> map_of (query r) ''limit'' = Some ''1''"
    by blast
  from fetchRows_limit [of ?all ?p ?one] h2
  have b: "\<exists>r. snd (fetchRows_start ?p ?all ?one) = [HttpGet r]
      \<and> ''limit'' \<notin> fst ` set (query r)"
    by blast
  from h1 h2 a b show ?thesis by blast
qed

subsection \<open>Failed requests\<close>

lemma fetchColumns_settle_failed:
  "received resp (selectedColumnAttributes props) = Inl e \<Longrightarrow>
   fetchColumns_settle props closure resp s =
     (s\<lparr>error := ''Failed to fetch columns. Please check your inputs and try again.'',
        isLoading := False\<rparr>, [])"
  by (simp add: fetchColumns_settle_def)

lemma fetchRows_settle_failed:
  "received resp (selectedRowAttributes props) = Inl e \<Longrightarrow>
   fetchRows_settle props closure resp s =
     (s\<lparr>error := ''Failed to fetch rows. Please check your inputs and try again.'',
        isLoading := False\<rparr>, [])"
  by (simp add: fetchRows_settle_def)

lemma on_card_other:
  "other \<noteq> table_id (table props) \<Longrightarrow> fst (on_card props step cards) other = cards other"
  by (simp add: on_card_def split: prod.splits)

lemma on_card_own:
  "fst (on_card props step cards) (table_id (table props))
     = fst (step (cards (table_id (table props))))"
  by (simp add: on_card_def split: prod.splits)

lemma on_card_events:
  "snd (on_card props step cards) = snd (step (cards (table_id (table props))))"
  by (simp add: on_card_def split: prod.splits)

lemma on_card_after_other:
  assumes "table_id (table props') \<noteq> table_id (table props)"
  shows "snd (on_card props' step' (fst (on_card props step cards)))
           = snd (on_card props' step' cards)"
    and "fst (on_card props' step' (fst (on_card props step cards))) (table_id (table props'))
           = fst (on_card props' step' cards) (table_id (table props'))"
  using assms by (simp_all add: on_card_events on_card_own on_card_other)

text \<open>
  C6: for every table, when the column request or the row request is rejected, the card
  of that table shows an error, its stored columns and rows are what they were, and the
  parent's callback is not called, so nothing stored for any table changes. The card of
  any other table keeps its state, and a fetch step of another table's card produces the
  same effects and the same state of that card as it would have without the failure. The
  same holds over a whole run of the effect on a network that rejects every request.
\<close>

theorem fetch_failure_is_local:
  assumes "table_id (table props') \<noteq> table_id (table props)"
  shows "error_shown (fst (fetchColumns_settle props closure Rejected s))
         \<and> tableData (fst (fetchColumns_settle props closure Rejected s)) = tableData s
         \<and> snd (fetchColumns_settle props closure Rejected s) = []
         \<and> error_shown (fst (fetchRows_settle props closure Rejected s))
         \<and> tableData (fst (fetchRows_settle props closure Rejected s)) = tableData s
         \<and> snd (fetchRows_settle props closure Rejected s) = []
         \<and> fst (on_card props (fetchColumns_settle props closure Rejected) cards)
               (table_id (table props')) = cards (table_id (table props'))
         \<and> fst (on_card props (fetchRows_settle props closure Rejected) cards)
               (table_id (table props')) = cards (table_id (table props'))
         \<and> snd (on_card props' step'
                  (fst (on_card props (fetchRows_settle props closure Rejected) cards)))
             = snd (on_card props' step' cards)
         \<and> fst (on_card props' step'
                  (fst (on_card props (fetchRows_settle props closure Rejected) cards)))
               (table_id (table props'))
             = fst (on_card props' step' cards) (table_id (table props'))
         \<and> error_shown (fst (fetchColumns props (\<lambda>r. Rejected) s))
         \<and> tableData (fst (fetchColumns props (\<lambda>r. Rejected) s)) = tableData s
         \<and> snd (fetchColumns props (\<lambda>r. Rejected) s) = [HttpGet (columns_request props)]
         \<and> (rowCount s = ''0''
             \<or> error_shown (fst (fetchRows props (\<lambda>r. Rejected) s))
               \<and> tableData (fst (fetchRows props (\<lambda>r. Rejected) s)) = tableData s
               \<and> snd (fetchRows props (\<lambda>r. Rejected) s)
                   = [HttpGet (rows_request props (rowCount s))])"
proof -
  note c = fetchColumns_settle_failed [OF received_Rejected]
  note r = fetchRows_settle_failed [OF received_Rejected]
  have c1: "error_shown (fst (fetchColumns_settle props closure Rejected s))"
    by (simp add: c error_shown_def)
  have c2: "tableData (fst (fetchColumns_settle props closure Rejected s)) = tableData s"
    by (simp add: c)
  have c3: "snd (fetchColumns_settle props closure Rejected s) = []"
    by (simp add: c)
  have r1: "error_shown (fst (fetchRows_settle props closure Rejected s))"
    by (simp add: r error_shown_def)
  have r2: "tableData (fst (fetchRows_settle props closure Rejected s)) = tableData s"
    by (simp add: r)
  have r3: "snd (fetchRows_settle props closure Rejected s) = []"
    by (simp add: r)
  have o1: "fst (on_card props (fetchColumns_settle props closure Rejected) cards)
               (table_id (table props')) = cards (table_id (table props'))"
    using assms by (rule on_card_other)
  have o2: "fst (on_card props (fetchRows_settle props closure Rejected) cards)
               (table_id (table props')) = cards (table_id (table props'))"
    using assms by (rule on_card_other)
  have o3: "snd (on_card props' step'
                  (fst (on_card props (fetchRows_settle props closure Rejected) cards)))
             = snd (on_card props' step' cards)"
    using assms by (rule on_card_after_other)
  have o4: "fst (on_card props' step'
                  (fst (on_card props (fetchRows_settle props closure Rejected) cards)))
               (table_id (table props'))
             = fst (on_card props' step' cards) (table_id (table props'))"
    using assms by (rule on_card_after_other)
  have w1: "error_shown (fst (fetchColumns props (\<lambda>r. Rejected) s))"
    by (simp add: fetchColumns_def fetchColumns_start_def c error_shown_def)
  have w2: "tableData (fst (fetchColumns props (\<lambda>r. Rejected) s)) = tableData s"
    by (simp add: fetchColumns_def fetchColumns_start_def c)
  have w3: "snd (fetchColumns props (\<lambda>r. Rejected) s) = [HttpGet (columns_request props)]"
    by (simp add: fetchColumns_def fetchColumns_start_def c)
  have w4: "rowCount s = ''0''
             \<or> error_shown (fst (fetchRows props (\<lambda>r. Rejected) s))
               \<and> tableData (fst (fetchRows props (\<lambda>r. Rejected) s)) = tableData s
               \<and> snd (fetchRows props (\<lambda>r. Rejected) s)
                   = [HttpGet (rows_request props (rowCount s))]"
    by (simp add: fetchRows_def fetchRows_start_def r error_shown_def)
  from c1 c2 c3 r1 r2 r3 o1 o2 o3 o4 w1 w2 w3 w4 show ?thesis
    by (intro conjI)
qed

theorem fetch_failure_is_local_witness:
  "table_id (table \<lparr>table = mk_table ''t2'', apiToken = ''k'', docId = ''d'',
                    selectedColumnAttributes = [''id''], selectedRowAttributes = [''id'']\<rparr>)
     \<noteq> table_id (table \<lparr>table = mk_table ''t1'', apiToken = ''k'', docId = ''d'',
                    selectedColumnAttributes = [''id''], selectedRowAttributes = [''id'']\<rparr>)
   \<and> error_shown (fst (fetchRows_settle
         \<lparr>table = mk_table ''t1'', apiToken = ''k'', docId = ''d'',
          selectedColumnAttributes = [''id''], selectedRowAttributes = [''id'']\<rparr>
         (initial_state\<lparr>tableData := \<lparr>columns = JArr [JObj [(''id'', JStr ''c1'')]],
                                       rows = JArr []\<rparr>\<rparr> :: int card_state)
         Rejected
         (initial_state\<lparr>tableData := \<lparr>columns = JArr [JObj [(''id'', JStr ''c1'')]],
                                       rows = JArr []\<rparr>\<rparr>)))
   \<and> tableData (fst (fetchRows_settle
         \<lparr>table = mk_table ''t1'', apiToken = ''k'', docId = ''d'',
          selectedColumnAttributes = [''id''], selectedRowAttributes = [''id'']\<rparr>
         (initial_state\<lparr>tableData := \<lparr>columns = JArr [JObj [(''id'', JStr ''c1'')]],
                                       rows = JArr []\<rparr>\<rparr> :: int card_state)
         Rejected
         (initial_state\<lparr>tableData := \<lparr>columns = JArr [JObj [(''id'', JStr ''c1'')]],
                                       rows = JArr []\<rparr>\<rparr>)))
       = \<lparr>columns = JArr [JObj [(''id'', JStr ''c1'')]], rows = JArr []\<rparr>
   \<and> fst (on_card
         \<lparr>table = mk_table ''t1'', apiToken = ''k'', docId = ''d'',
          selectedColumnAttributes = [''id''], selectedRowAttributes = [''id'']\<rparr>
         (fetchRows_settle
           \<lparr>table = mk_table ''t1'', apiToken = ''k'', docId = ''d'',
            selectedColumnAttributes = [''id''], selectedRowAttributes = [''id'']\<rparr>
           (initial_state :: int card_state) Rejected)
         (\<lambda>i. initial_state)) ''t2'' = initial_state"
proof -
  let ?p1 = "\<lparr>table = mk_table ''t1'', apiToken = ''k'', docId = ''d'',
              selectedColumnAttributes = [''id''], selectedRowAttributes = [''id'']\<rparr>"
  let ?p2 = "\<lparr>table = mk_table ''t2'', apiToken = ''k'', docId = ''d'',
              selectedColumnAttributes = [''id''], selectedRowAttributes = [''id'']\<rparr>"
  let ?s = "initial_state\<lparr>tableData := \<lparr>columns = JArr [JObj [(''id'', JStr ''c1'')]],
                                       rows = JArr []\<rparr>\<rparr> :: int card_state"
  have h: "table_id (table ?p2) \<noteq> table_id (table ?p1)"
    by (simp add: mk_table_def)
  have t2: "table_id (table ?p2) = ''t2''"
    by (simp add: mk_table_def)
  from fetch_failure_is_local [OF h, where closure = ?s and s = ?s]
  have a: "error_shown (fst (fetchRows_settle ?p1 ?s Rejected ?s))"
    and b: "tableData (fst (fetchRows_settle ?p1 ?s Rejected ?s)) = tableData ?s"
    by blast+
  from fetch_failure_is_local [OF h, where closure = initial_state and cards = "\<lambda>i. initial_state"]
  have c: "fst (on_card ?p1 (fetchRows_settle ?p1 (initial_state :: int card_state) Rejected)
             (\<lambda>i. initial_state)) (table_id (table ?p2)) = initial_state"
    by blast
  from c have c': "fst (on_card ?p1 (fetchRows_settle ?p1 (initial_state :: int card_state) Rejected)
             (\<lambda>i. initial_state)) ''t2'' = initial_state"
    by (simp only: t2)
  from b have b': "tableData (fst (fetchRows_settle ?p1 ?s Rejected ?s))
      = \<lparr>columns = JArr [JObj [(''id'', JStr ''c1'')]], rows = JArr []\<rparr>"
    by simp
  from h a b' c' show ?thesis
    by (intro conjI)
qed

section \<open>Facts about the filter on a store\<close>

subsection \<open>Stores only grow\<close>

lemma extends_iff: "extends h h' \<longleftrightarrow> (\<exists>new. h' = h @ new)"
proof
  assume "extends h h'"
  then have "h' = h @ drop (length h) h'"
    by (metis append_take_drop_id extends_def)
  then show "\<exists>new. h' = h @ new" ..
next
  assume "\<exists>new. h' = h @ new"
  then show "extends h h'" by (auto simp: extends_def)
qed

lemma extends_refl: "extends h h"
  by (simp add: extends_def)

lemma extends_trans: "extends h h1 \<Longrightarrow> extends h1 h2 \<Longrightarrow> extends h h2"
  by (auto simp: extends_iff)

lemma extends_length: "extends h h' \<Longrightarrow> a < length h \<Longrightarrow> a < length h'"
  by (auto simp: extends_iff)

lemma extends_nth: "extends h h' \<Longrightarrow> a < length h \<Longrightarrow> h' ! a = h ! a"
  by (auto simp: extends_iff nth_append)

lemma extends_alloc: "alloc h obj = (h', r) \<Longrightarrow> extends h h'"
  by (auto simp: alloc_def extends_iff)

lemma extends_fromEntries: "h_fromEntries h es = (h', r) \<Longrightarrow> extends h h'"
  unfolding h_fromEntries_def by (rule extends_alloc)

lemma h_cleanValues_extends: "h_cleanValues h e = Inr (h1, e1) \<Longrightarrow> extends h h1"
  by (cases e)
    (auto simp: extends_refl split: if_splits sum.splits prod.splits dest: extends_fromEntries)

lemma hmap_extends:
  assumes step: "\<And>h x h1 y. f h x = Inr (h1, y) \<Longrightarrow> extends h h1"
  shows "hmap f h xs = Inr (h2, ys) \<Longrightarrow> extends h h2"
proof (induction xs arbitrary: h ys)
  case Nil
  then show ?case by (simp add: extends_refl)
next
  case (Cons x xs)
  from Cons.prems obtain h1 y ys' where one: "f h x = Inr (h1, y)"
    and rest: "hmap f h1 xs = Inr (h2, ys')"
    by (auto split: sum.splits prod.splits)
  from one have "extends h h1" by (rule step)
  moreover from rest have "extends h1 h2" by (rule Cons.IH)
  ultimately show ?case by (rule extends_trans)
qed

lemma h_filterItem_extends: "h_filterItem A h item = Inr (h1, out) \<Longrightarrow> extends h h1"
proof -
  assume run: "h_filterItem A h item = Inr (h1, out)"
  then obtain es h0 cleaned where
    m: "hmap h_cleanValues h (filter (\<lambda>(key, _). array_includes A key) es) = Inr (h0, cleaned)"
    and f: "h_fromEntries h0 (filter h_keepValue cleaned) = (h1, out)"
    by (auto simp: h_filterItem_def split: sum.splits prod.splits)
  from m have "extends h h0"
    by (rule hmap_extends [rotated]) (rule h_cleanValues_extends)
  moreover from f have "extends h0 h1" by (rule extends_fromEntries)
  ultimately show ?thesis by (rule extends_trans)
qed

lemma h_filterData_extends: "h_filterData h data A = Inr (h1, out) \<Longrightarrow> extends h h1"
proof (cases data)
  case (HRef a)
  assume "h_filterData h data A = Inr (h1, out)"
  with HRef obtain xs h0 items where
    m: "hmap (h_filterItem A) h xs = Inr (h0, items)"
    and f: "alloc h0 (HArray items) = (h1, out)"
    by (auto split: if_splits hobj.splits sum.splits prod.splits)
  from m have "extends h h0"
    by (rule hmap_extends [rotated]) (rule h_filterItem_extends)
  moreover from f have "extends h0 h1" by (rule extends_alloc)
  ultimately show ?thesis by (rule extends_trans)
qed simp_all

subsection \<open>Reading a value through a larger store\<close>

lemma represents_mono:
  assumes "represents h v j" and ext: "extends h h'"
  shows "represents h' v j"
  using assms(1)
proof (induction rule: represents.induct)
  case (rep_array a xs js)
  from ext rep_array.hyps(1) have "a < length h'" by (rule extends_length)
  moreover from ext rep_array.hyps(1) have "h' ! a = HArray xs"
    by (simp add: extends_nth rep_array.hyps(2))
  moreover from rep_array.IH have "list_all2 (represents h') xs js"
    by (rule list_all2_mono) simp
  ultimately show ?case by (rule represents.rep_array)
next
  case (rep_object a kvs kjs)
  from ext rep_object.hyps(1) have "a < length h'" by (rule extends_length)
  moreover from ext rep_object.hyps(1) have "h' ! a = HObject kvs"
    by (simp add: extends_nth rep_object.hyps(2))
  moreover from rep_object.IH
  have "list_all2 (\<lambda>kv kj. fst kv = fst kj \<and> represents h' (snd kv) (snd kj)) kvs kjs"
    by (rule list_all2_mono) simp
  ultimately show ?case by (rule represents.rep_object)
qed (simp_all add: represents.intros)

lemma represents_entry_eq:
  "represents_entry h = (\<lambda>kv kj. fst kv = fst kj \<and> represents h (snd kv) (snd kj))"
  by (intro ext) (simp add: represents_entry_def)

lemma represents_entry_mono:
  "represents_entry h kv kj \<Longrightarrow> extends h h' \<Longrightarrow> represents_entry h' kv kj"
  by (auto simp: represents_entry_def intro: represents_mono)

lemma represents_entries_mono:
  "list_all2 (represents_entry h) es jes \<Longrightarrow> extends h h'
   \<Longrightarrow> list_all2 (represents_entry h') es jes"
  by (erule list_all2_mono) (rule represents_entry_mono)

lemma represents_typeof: "represents h v j \<Longrightarrow> h_typeof v = typeof j"
  by (induction rule: represents.induct) simp_all

lemma represents_null: "represents h v j \<Longrightarrow> v = HNull \<longleftrightarrow> j = JNull"
  by (induction rule: represents.induct) simp_all

lemma represents_undefined: "represents h v j \<Longrightarrow> v = HUndefined \<longleftrightarrow> j = JUndefined"
  by (induction rule: represents.induct) simp_all

lemma represents_str: "represents h v j \<Longrightarrow> v = HStr s \<longleftrightarrow> j = JStr s"
  by (induction rule: represents.induct) simp_all

lemma represents_keep:
  "represents_entry h kv kj \<Longrightarrow> h_keepValue kv \<longleftrightarrow> keepValue kj"
  by (cases kv; cases kj)
    (simp add: represents_entry_def represents_null represents_undefined represents_str)

lemma represents_nonempty:
  "represents_entry h kv kj \<Longrightarrow>
   (case kv of (_, val) \<Rightarrow> val \<noteq> HStr '''') \<longleftrightarrow> (case kj of (_, val) \<Rightarrow> val \<noteq> JStr '''')"
  by (cases kv; cases kj) (simp add: represents_entry_def represents_str)

subsection \<open>Entries of represented values\<close>

lemma list_all2_filter_agree:
  assumes "list_all2 R xs ys" and "\<And>x y. R x y \<Longrightarrow> P x \<longleftrightarrow> Q y"
  shows "list_all2 R (filter P xs) (filter Q ys)"
  using assms(1)
proof (induction rule: list_all2_induct)
  case Nil
  show ?case by simp
next
  case (Cons x xs y ys)
  from Cons.hyps(1) have "P x \<longleftrightarrow> Q y" by (rule assms(2))
  with Cons show ?case by simp
qed

lemma index_entries_agree:
  assumes "list_all2 R xs ys"
  shows "list_all2 (\<lambda>kv kj. fst kv = fst kj \<and> R (snd kv) (snd kj))
           (index_entries xs) (index_entries ys)"
proof -
  from assms have len: "length xs = length ys"
    by (rule list_all2_lengthD)
  show ?thesis
    unfolding index_entries_def list_all2_conv_all_nth
    using assms len by (simp add: list_all2_conv_all_nth)
qed

lemma entries_agree:
  assumes "represents h v j"
  shows "(v = HNull \<or> v = HUndefined) \<and> h_entries h v = Inl TypeError
           \<and> Object_entries j = Inl TypeError
         \<or> v \<noteq> HNull \<and> v \<noteq> HUndefined
           \<and> (\<exists>es. h_entries h v = Inr es \<and> Object_entries j = Inr (own_entries j)
                  \<and> list_all2 (represents_entry h) es (own_entries j))"
  using assms
proof (cases rule: represents.cases)
  case (rep_str s)
  have "list_all2 (represents h) (map (\<lambda>c. HStr [c]) s) (map (\<lambda>c. JStr [c]) s)"
    by (simp add: list_all2_map1 list_all2_map2 list_all2_same represents.rep_str)
  then have "list_all2 (represents_entry h)
      (index_entries (map (\<lambda>c. HStr [c]) s)) (index_entries (map (\<lambda>c. JStr [c]) s))"
    unfolding represents_entry_def by (rule index_entries_agree)
  with rep_str show ?thesis
    by (simp add: Object_entries_def)
next
  case (rep_array a xs js)
  from rep_array(5) have "list_all2 (represents_entry h) (index_entries xs) (index_entries js)"
    unfolding represents_entry_def by (rule index_entries_agree)
  with rep_array show ?thesis
    by (simp add: Object_entries_def)
next
  case (rep_object a kvs kjs)
  then show ?thesis
    by (simp add: Object_entries_def represents_entry_eq)
qed (simp_all add: Object_entries_def)

subsection \<open>Rebuilding represented entries\<close>

lemma set_property_agree:
  assumes "list_all2 (represents_entry h) obj jobj" and "represents h v j"
  shows "list_all2 (represents_entry h) (set_property obj k v) (set_property jobj k j)"
  using assms(1)
proof (induction rule: list_all2_induct)
  case Nil
  from assms(2) show ?case by (simp add: represents_entry_def)
next
  case (Cons x xs y ys)
  obtain k1 v1 where x: "x = (k1, v1)" by (cases x)
  obtain k2 v2 where y: "y = (k2, v2)" by (cases y)
  from Cons.hyps(1) x y have k: "k1 = k2" by (simp add: represents_entry_def)
  from Cons assms(2) show ?case
    by (simp add: x y k represents_entry_eq)
qed

lemma define_all_agree:
  "list_all2 (represents_entry h) es jes \<Longrightarrow> list_all2 (represents_entry h) obj jobj
   \<Longrightarrow> list_all2 (represents_entry h) (define_all obj es) (define_all jobj jes)"
proof (induction arbitrary: obj jobj rule: list_all2_induct)
  case Nil
  then show ?case by (simp add: define_all_Nil)
next
  case (Cons x xs y ys)
  obtain k v where x: "x = (k, v)" by (cases x)
  obtain k' j where y: "y = (k', j)" by (cases y)
  from Cons.hyps(1) x y have k: "k' = k" and r: "represents h v j"
    by (simp_all add: represents_entry_def)
  from Cons.prems r
  have "list_all2 (represents_entry h) (set_property obj k v) (set_property jobj k j)"
    by (rule set_property_agree)
  then have "list_all2 (represents_entry h)
      (define_all (set_property obj k v) xs) (define_all (set_property jobj k j) ys)"
    by (rule Cons.IH)
  then show ?case by (simp add: x y k define_all_Cons)
qed

lemma fromEntries_agree:
  assumes "list_all2 (represents_entry h) es jes" and "h_fromEntries h es = (h1, r)"
  shows "extends h h1 \<and> represents h1 r (Object_fromEntries jes)"
proof -
  let ?obj = "define_all [] es"
  from assms(2) have h1: "h1 = h @ [HObject ?obj]" and r: "r = HRef (length h)"
    by (simp_all add: h_fromEntries_def alloc_def)
  from assms(2) have ext: "extends h h1" by (rule extends_fromEntries)
  from assms(1) have "list_all2 (represents_entry h) ?obj (define_all [] jes)"
    by (rule define_all_agree) simp
  then have "list_all2 (represents_entry h1) ?obj (define_all [] jes)"
    using ext by (rule represents_entries_mono)
  then have "represents h1 (HRef (length h)) (JObj (define_all [] jes))"
    unfolding represents_entry_def
    by (rule represents.rep_object [rotated 2]) (simp_all add: h1)
  with ext r show ?thesis by (simp add: Object_fromEntries_def)
qed

subsection \<open>The filter on a store computes the filter on values\<close>

lemma cleanValues_agree:
  assumes "represents_entry h e je"
  shows "\<exists>h1 e1. h_cleanValues h e = Inr (h1, e1) \<and> extends h h1
           \<and> represents_entry h1 e1 (cleanValues je)"
proof -
  obtain k v where e: "e = (k, v)" by (cases e)
  obtain k' j where je: "je = (k', j)" by (cases je)
  from assms e je have k: "k' = k" and r: "represents h v j"
    by (simp_all add: represents_entry_def)
  have ty: "h_typeof v = typeof j" using r by (rule represents_typeof)
  have nu: "v = HNull \<longleftrightarrow> j = JNull" using r by (rule represents_null)
  show ?thesis
  proof (cases "k = ''values'' \<and> typeof j = ''object'' \<and> j \<noteq> JNull")
    case False
    then have "h_cleanValues h e = Inr (h, e)" and "cleanValues je = je"
      by (auto simp: e je k ty nu)
    moreover have "extends h h" by (rule extends_refl)
    ultimately have "h_cleanValues h e = Inr (h, e) \<and> extends h h
        \<and> represents_entry h e (cleanValues je)"
      using assms by simp
    then show ?thesis by blast
  next
    case True
    then have "v \<noteq> HNull" and "v \<noteq> HUndefined"
      using ty nu by auto
    with entries_agree [OF r] obtain es where es: "h_entries h v = Inr es"
      and rel: "list_all2 (represents_entry h) es (own_entries j)"
      by blast
    let ?fs = "filter (\<lambda>(_, val). val \<noteq> HStr '''') es"
    let ?jfs = "filter (\<lambda>(_, val). val \<noteq> JStr '''') (own_entries j)"
    from rel have frel: "list_all2 (represents_entry h) ?fs ?jfs"
      by (rule list_all2_filter_agree) (rule represents_nonempty)
    obtain h1 r1 where al: "h_fromEntries h ?fs = (h1, r1)"
      by (cases "h_fromEntries h ?fs")
    from frel al have ext: "extends h h1" and rep: "represents h1 r1 (Object_fromEntries ?jfs)"
      using fromEntries_agree by blast+
    from True es al have "h_cleanValues h e = Inr (h1, (k, r1))"
      by (simp add: e ty nu)
    moreover from True have "cleanValues je = (k, Object_fromEntries ?jfs)"
      by (simp add: je k)
    ultimately show ?thesis
      using ext rep by (simp add: represents_entry_def)
  qed
qed

lemma hmap_cleanValues_agree:
  "list_all2 (represents_entry h) es jes \<Longrightarrow>
   \<exists>h1 es1. hmap h_cleanValues h es = Inr (h1, es1) \<and> extends h h1
     \<and> list_all2 (represents_entry h1) es1 (map cleanValues jes)"
proof (induction es arbitrary: h jes)
  case Nil
  then show ?case by (simp add: extends_refl)
next
  case (Cons e es)
  from Cons.prems obtain je jes' where jes: "jes = je # jes'"
    and one: "represents_entry h e je" and rest: "list_all2 (represents_entry h) es jes'"
    by (auto simp: list_all2_Cons1)
  from cleanValues_agree [OF one] obtain h0 e1 where
    c: "h_cleanValues h e = Inr (h0, e1)" and ext0: "extends h h0"
    and r0: "represents_entry h0 e1 (cleanValues je)"
    by blast
  from rest ext0 have "list_all2 (represents_entry h0) es jes'"
    by (rule represents_entries_mono)
  from Cons.IH [OF this] obtain h1 es1 where
    m: "hmap h_cleanValues h0 es = Inr (h1, es1)" and ext1: "extends h0 h1"
    and r1: "list_all2 (represents_entry h1) es1 (map cleanValues jes')"
    by blast
  from r0 ext1 have "represents_entry h1 e1 (cleanValues je)"
    by (rule represents_entry_mono)
  with r1 have "list_all2 (represents_entry h1) (e1 # es1) (map cleanValues jes)"
    by (simp add: jes del: cleanValues.simps)
  moreover from ext0 ext1 have "extends h h1" by (rule extends_trans)
  moreover from c m have "hmap h_cleanValues h (e # es) = Inr (h1, e1 # es1)"
    by simp
  ultimately show ?case by blast
qed

lemma filterItem_agree:
  assumes "represents h x jx"
  shows "(\<exists>e. h_filterItem A h x = Inl e \<and> filterItem A jx = Inl e)
         \<or> (\<exists>h1 out jo. h_filterItem A h x = Inr (h1, out) \<and> filterItem A jx = Inr jo
               \<and> extends h h1 \<and> represents h1 out jo)"
proof -
  from entries_agree [OF assms] consider
    (fail) "h_entries h x = Inl TypeError" "Object_entries jx = Inl TypeError"
  | (ok) es where "h_entries h x = Inr es" "Object_entries jx = Inr (own_entries jx)"
      "list_all2 (represents_entry h) es (own_entries jx)"
    by blast
  then show ?thesis
  proof cases
  case fail
  then have "h_filterItem A h x = Inl TypeError" and "filterItem A jx = Inl TypeError"
    by (simp_all add: h_filterItem_def filterItem_def)
  then show ?thesis by blast
next
  case ok
  note es = ok(1) and jes = ok(2) and rel = ok(3)
  let ?sel = "filter (\<lambda>(key, _). array_includes A key) es"
  let ?jsel = "filter (\<lambda>(key, _). array_includes A key) (own_entries jx)"
  from rel have "list_all2 (represents_entry h) ?sel ?jsel"
    by (rule list_all2_filter_agree) (simp add: represents_entry_def case_prod_beta)
  from hmap_cleanValues_agree [OF this] obtain h0 cleaned where
    m: "hmap h_cleanValues h ?sel = Inr (h0, cleaned)" and ext0: "extends h h0"
    and crel: "list_all2 (represents_entry h0) cleaned (map cleanValues ?jsel)"
    by blast
  from crel have krel: "list_all2 (represents_entry h0)
      (filter h_keepValue cleaned) (filter keepValue (map cleanValues ?jsel))"
    by (rule list_all2_filter_agree) (rule represents_keep)
  obtain h1 out where al: "h_fromEntries h0 (filter h_keepValue cleaned) = (h1, out)"
    by (cases "h_fromEntries h0 (filter h_keepValue cleaned)")
  from krel al have ext1: "extends h0 h1"
    and rep: "represents h1 out (Object_fromEntries (filter keepValue (map cleanValues ?jsel)))"
    using fromEntries_agree by blast+
  from es m al have "h_filterItem A h x = Inr (h1, out)"
    by (simp add: h_filterItem_def)
  moreover from jes have "filterItem A jx
      = Inr (Object_fromEntries (filter keepValue (map cleanValues ?jsel)))"
    by (simp add: filterItem_def)
  moreover from ext0 ext1 have "extends h h1" by (rule extends_trans)
  ultimately show ?thesis using rep by blast
qed
qed

lemma hmap_filterItem_agree:
  "list_all2 (represents h) xs js \<Longrightarrow>
   (\<exists>e. hmap (h_filterItem A) h xs = Inl e \<and> map_result (filterItem A) js = Inl e)
   \<or> (\<exists>h1 outs jos. hmap (h_filterItem A) h xs = Inr (h1, outs)
         \<and> map_result (filterItem A) js = Inr jos
         \<and> extends h h1 \<and> list_all2 (represents h1) outs jos)"
proof (induction xs arbitrary: h js)
  case Nil
  then show ?case by (simp add: extends_refl)
next
  case (Cons x xs)
  from Cons.prems obtain jx js' where js: "js = jx # js'"
    and one: "represents h x jx" and rest: "list_all2 (represents h) xs js'"
    by (auto simp: list_all2_Cons1)
  from filterItem_agree [OF one, of A] show ?case
  proof (elim disjE exE conjE)
    fix e
    assume "h_filterItem A h x = Inl e" and "filterItem A jx = Inl e"
    then have "hmap (h_filterItem A) h (x # xs) = Inl e"
      and "map_result (filterItem A) js = Inl e"
      by (simp_all add: js)
    then show ?thesis by blast
  next
    fix h0 out jo
    assume hx: "h_filterItem A h x = Inr (h0, out)" and px: "filterItem A jx = Inr jo"
      and ext0: "extends h h0" and rep0: "represents h0 out jo"
    from rest ext0 have "list_all2 (represents h0) xs js'"
      by (auto elim!: list_all2_mono intro: represents_mono)
    from Cons.IH [OF this] show ?thesis
    proof (elim disjE exE conjE)
      fix e
      assume "hmap (h_filterItem A) h0 xs = Inl e" and "map_result (filterItem A) js' = Inl e"
      with hx px have "hmap (h_filterItem A) h (x # xs) = Inl e"
        and "map_result (filterItem A) js = Inl e"
        by (simp_all add: js)
      then show ?thesis by blast
    next
      fix h1 outs jos
      assume m: "hmap (h_filterItem A) h0 xs = Inr (h1, outs)"
        and pm: "map_result (filterItem A) js' = Inr jos"
        and ext1: "extends h0 h1" and reps: "list_all2 (represents h1) outs jos"
      from rep0 ext1 have "represents h1 out jo" by (rule represents_mono)
      with reps have "list_all2 (represents h1) (out # outs) (jo # jos)" by simp
      moreover from hx m have "hmap (h_filterItem A) h (x # xs) = Inr (h1, out # outs)"
        by simp
      moreover from px pm have "map_result (filterItem A) js = Inr (jo # jos)"
        by (simp add: js)
      moreover from ext0 ext1 have "extends h h1" by (rule extends_trans)
      ultimately show ?thesis by blast
    qed
  qed
qed

lemma filterData_agree:
  assumes "represents h data j"
  shows "(\<exists>e. h_filterData h data A = Inl e \<and> filterData j A = Inl e)
         \<or> (\<exists>h1 out jo. h_filterData h data A = Inr (h1, out) \<and> filterData j A = Inr jo
               \<and> extends h h1 \<and> represents h1 out jo)"
  using assms
proof (cases rule: represents.cases)
  case (rep_array a xs js)
  from hmap_filterItem_agree [OF rep_array(5), of A] show ?thesis
  proof (elim disjE exE conjE)
    fix e
    assume "hmap (h_filterItem A) h xs = Inl e" and "map_result (filterItem A) js = Inl e"
    with rep_array have "h_filterData h data A = Inl e" and "filterData j A = Inl e"
      by simp_all
    then show ?thesis by blast
  next
    fix h0 outs jos
    assume m: "hmap (h_filterItem A) h xs = Inr (h0, outs)"
      and pm: "map_result (filterItem A) js = Inr jos"
      and ext0: "extends h h0" and reps: "list_all2 (represents h0) outs jos"
    let ?h1 = "h0 @ [HArray outs]"
    have al: "alloc h0 (HArray outs) = (?h1, HRef (length h0))"
      by (simp add: alloc_def)
    then have ext1: "extends h0 ?h1" by (rule extends_alloc)
    from reps have "list_all2 (represents ?h1) outs jos"
      by (auto elim!: list_all2_mono intro: represents_mono [OF _ ext1])
    then have "represents ?h1 (HRef (length h0)) (JArr jos)"
      by (rule represents.rep_array [rotated 2]) simp_all
    moreover from rep_array m al have "h_filterData h data A = Inr (?h1, HRef (length h0))"
      by simp
    moreover from rep_array pm have "filterData j A = Inr (JArr jos)"
      by simp
    moreover from ext0 ext1 have "extends h ?h1" by (rule extends_trans)
    ultimately show ?thesis by blast
  qed
qed simp_all

inductive_simps represents_simps:
  "represents h HUndefined j"
  "represents h HNull j"
  "represents h (HBool b) j"
  "represents h (HNum n) j"
  "represents h (HStr s) j"
  "represents h (HRef a) j"

text \<open>
  C7: the attribute filter is pure. On a store of shared objects a call of \<open>filterData\<close>
  only allocates: the store after the call begins with the store before it, so every
  input record and every value it holds is what it was. When the input represents a JSON
  value, the call fails or succeeds exactly as the function \<open>filterData\<close> of that value
  does, and its output represents the result of that function, which depends on the input
  value and the allow-list only. A second call on the same input, in the store the first
  call left, succeeds again, and the two outputs represent the same value.
\<close>

theorem filterData_pure:
  "(\<forall>h1 out. h_filterData h data A = Inr (h1, out) \<longrightarrow> extends h h1)
   \<and> (represents h data j \<longrightarrow>
        (\<exists>e. h_filterData h data A = Inl e \<and> filterData j A = Inl e)
        \<or> (\<exists>h1 out1 j'. h_filterData h data A = Inr (h1, out1) \<and> filterData j A = Inr j'
              \<and> extends h h1 \<and> represents h1 data j \<and> represents h1 out1 j'
              \<and> (\<exists>h2 out2. h_filterData h1 data A = Inr (h2, out2)
                    \<and> extends h1 h2 \<and> represents h2 data j
                    \<and> represents h2 out1 j' \<and> represents h2 out2 j')))"
proof (intro conjI allI impI)
  fix h1 out
  assume "h_filterData h data A = Inr (h1, out)"
  then show "extends h h1" by (rule h_filterData_extends)
next
  assume rep: "represents h data j"
  from filterData_agree [OF rep, of A] consider
    (fail) e where "h_filterData h data A = Inl e" "filterData j A = Inl e"
  | (ok) h1 out1 j' where "h_filterData h data A = Inr (h1, out1)" "filterData j A = Inr j'"
      "extends h h1" "represents h1 out1 j'"
    by blast
  then show "(\<exists>e. h_filterData h data A = Inl e \<and> filterData j A = Inl e)
        \<or> (\<exists>h1 out1 j'. h_filterData h data A = Inr (h1, out1) \<and> filterData j A = Inr j'
              \<and> extends h h1 \<and> represents h1 data j \<and> represents h1 out1 j'
              \<and> (\<exists>h2 out2. h_filterData h1 data A = Inr (h2, out2)
                    \<and> extends h1 h2 \<and> represents h2 data j
                    \<and> represents h2 out1 j' \<and> represents h2 out2 j'))"
  proof cases
    case fail
    then show ?thesis by blast
  next
    case ok
    from rep ok(3) have rep1: "represents h1 data j" by (rule represents_mono)
    from filterData_agree [OF rep1, of A] ok(2) obtain h2 out2 where
      second: "h_filterData h1 data A = Inr (h2, out2)" and ext2: "extends h1 h2"
      and rep2: "represents h2 out2 j'"
      by auto
    from rep1 ext2 have "represents h2 data j" by (rule represents_mono)
    moreover from ok(4) ext2 have "represents h2 out1 j'" by (rule represents_mono)
    ultimately show ?thesis
      using ok rep1 second ext2 rep2 by blast
  qed
qed

theorem filterData_pure_witness:
  "represents
     [HObject [(''id'', HStr ''r1''), (''note'', HNull), (''values'', HRef 1)],
      HObject [(''Amount'', HStr ''''), (''Date'', HStr ''2024-01-01'')],
      HArray [HRef 0]]
     (HRef 2)
     (JArr [JObj [(''id'', JStr ''r1''), (''note'', JNull),
                  (''values'', JObj [(''Amount'', JStr ''''), (''Date'', JStr ''2024-01-01'')])]]
      :: int jsval)
   \<and> h_filterData
       [HObject [(''id'', HStr ''r1''), (''note'', HNull), (''values'', HRef 1)],
        HObject [(''Amount'', HStr ''''), (''Date'', HStr ''2024-01-01'')],
        HArray [HRef 0 :: int hval]]
       (HRef 2) [''id'', ''note'', ''values'']
     = Inr ([HObject [(''id'', HStr ''r1''), (''note'', HNull), (''values'', HRef 1)],
             HObject [(''Amount'', HStr ''''), (''Date'', HStr ''2024-01-01'')],
             HArray [HRef 0],
             HObject [(''Date'', HStr ''2024-01-01'')],
             HObject [(''id'', HStr ''r1''), (''values'', HRef 3)],
             HArray [HRef 4]],
            HRef 5)
   \<and> extends
       [HObject [(''id'', HStr ''r1''), (''note'', HNull), (''values'', HRef 1)],
        HObject [(''Amount'', HStr ''''), (''Date'', HStr ''2024-01-01'')],
        HArray [HRef 0 :: int hval]]
       [HObject [(''id'', HStr ''r1''), (''note'', HNull), (''values'', HRef 1)],
        HObject [(''Amount'', HStr ''''), (''Date'', HStr ''2024-01-01'')],
        HArray [HRef 0],
        HObject [(''Date'', HStr ''2024-01-01'')],
        HObject [(''id'', HStr ''r1''), (''values'', HRef 3)],
        HArray [HRef 4]]
   \<and> represents
       [HObject [(''id'', HStr ''r1''), (''note'', HNull), (''values'', HRef 1)],
        HObject [(''Amount'', HStr ''''), (''Date'', HStr ''2024-01-01'')],
        HArray [HRef 0],
        HObject [(''Date'', HStr ''2024-01-01'')],
        HObject [(''id'', HStr ''r1''), (''values'', HRef 3)],
        HArray [HRef 4]]
       (HRef 5)
       (JArr [JObj [(''id'', JStr ''r1''),
                    (''values'', JObj [(''Date'', JStr ''2024-01-01'')])]] :: int jsval)"
proof -
  let ?h = "[HObject [(''id'', HStr ''r1''), (''note'', HNull), (''values'', HRef 1)],
      HObject [(''Amount'', HStr ''''), (''Date'', HStr ''2024-01-01'')],
      HArray [HRef 0]] :: int heap"
  let ?h1 = "?h @ [HObject [(''Date'', HStr ''2024-01-01'')],
      HObject [(''id'', HStr ''r1''), (''values'', HRef 3)], HArray [HRef 4]]"
  let ?j = "JArr [JObj [(''id'', JStr ''r1''), (''note'', JNull),
      (''values'', JObj [(''Amount'', JStr ''''), (''Date'', JStr ''2024-01-01'')])]] :: int jsval"
  let ?j' = "JArr [JObj [(''id'', JStr ''r1''),
      (''values'', JObj [(''Date'', JStr ''2024-01-01'')])]] :: int jsval"
  let ?A = "[''id'', ''note'', ''values'']"
  have rep: "represents ?h (HRef 2) ?j"
    by (simp add: represents_simps)
  have run: "h_filterData ?h (HRef 2) ?A = Inr (?h1, HRef 5)"
    by (simp add: h_filterItem_def h_fromEntries_def alloc_def define_all_def
        array_includes_def)
  have pure: "filterData ?j ?A = Inr ?j'"
    by (simp add: filterItem_def Object_entries_def Object_fromEntries_def define_all_def
        array_includes_def)
  from filterData_pure [of ?h "HRef 2" ?A ?j] rep run pure
  have "extends ?h ?h1 \<and> represents ?h1 (HRef 5) ?j'"
    by (simp del: h_filterData.simps filterData.simps)
  with rep run show ?thesis
    by (simp del: h_filterData.simps)
qed

end
